theory Spec2Isabelle
  imports Complex_Main
begin

section \<open>Python values shared by the filters\<close>

text \<open>
  The filters mix Python \<open>str\<close> and \<open>bytes\<close> objects, and several behaviours depend on
  which of the two a value is. Both carry a character list here; the constructor records
  the Python type.
\<close>

type_synonym bytes = string

datatype pyval = PyStr string | PyBytes bytes

text \<open>Truthiness of a \<open>str\<close>/\<open>bytes\<close> object: non-empty.\<close>

fun truthy :: "pyval \<Rightarrow> bool" where
  "truthy (PyStr s) = (s \<noteq> [])"
| "truthy (PyBytes b) = (b \<noteq> [])"

datatype error =
    TypeError | UnboundLocalError | LookupError | UnicodeError | ValueError
  | AttributeError | KeyError | IndexError

text \<open>
  Modelled from the spec: the three end-of-stream states of the transport
  (\<open>rclexecm.RclExecM.noteof\<close>, \<open>eofnext\<close>, \<open>eofnow\<close>; the module \<open>rclexecm\<close> is not part
  of the sources). The spec calls them \<open>more\<close>, \<open>lastItem\<close> and \<open>alreadyDone\<close>.
\<close>

datatype eofstate = noteof | eofnext | eofnow

text \<open>Python list indexing with an integer: negative indices count from the end.\<close>

definition py_index :: "'a list \<Rightarrow> int \<Rightarrow> error + 'a" where
  "py_index xs i =
     (if 0 \<le> i \<and> i < int (length xs) then Inr (xs ! nat i)
      else if i < 0 \<and> - i \<le> int (length xs) then Inr (xs ! nat (int (length xs) + i))
      else Inl IndexError)"

subsection \<open>ASCII case folding and the substitution of \<open>_headtagre\<close>\<close>

definition ascii_lower :: "char \<Rightarrow> char" where
  "ascii_lower c =
     (if c \<in> set ''ABCDEFGHIJKLMNOPQRSTUVWXYZ'' then char_of (of_char c + (32::nat)) else c)"

fun ci_prefix :: "string \<Rightarrow> string \<Rightarrow> bool" where
  "ci_prefix [] s = True"
| "ci_prefix (p # ps) [] = False"
| "ci_prefix (p # ps) (c # cs) = (ascii_lower p = ascii_lower c \<and> ci_prefix ps cs)"

text \<open>
  \<open>re.compile(pat, re.IGNORECASE).sub(rep, s)\<close> for a pattern that is a plain non-empty
  word: every leftmost non-overlapping occurrence is replaced.
\<close>

function re_sub_ci :: "string \<Rightarrow> string \<Rightarrow> string \<Rightarrow> string" where
  "re_sub_ci pat rep [] = []"
| "re_sub_ci pat rep (c # cs) =
     (if ci_prefix pat (c # cs) then rep @ re_sub_ci pat rep (drop (length pat - 1) cs)
      else c # re_sub_ci pat rep cs)"
  by pat_completeness auto
termination
  by (relation "measure (\<lambda>(pat, rep, s). length s)") auto

text \<open>
  Searches used by the regular expressions of the filter. \<open>ci_after pat s\<close> is the text
  after the leftmost (case-insensitive) occurrence of \<open>pat\<close> in \<open>s\<close>, \<open>ci_before_last pat s\<close>
  the text before the rightmost one.
\<close>

fun ci_after :: "string \<Rightarrow> string \<Rightarrow> string option" where
  "ci_after pat [] = (if pat = [] then Some [] else None)"
| "ci_after pat (c # cs) =
     (if ci_prefix pat (c # cs) then Some (drop (length pat) (c # cs)) else ci_after pat cs)"

fun ci_before_last :: "string \<Rightarrow> string \<Rightarrow> string option" where
  "ci_before_last pat [] = (if pat = [] then Some [] else None)"
| "ci_before_last pat (c # cs) =
     (case ci_before_last pat cs of
        Some p \<Rightarrow> Some (c # p)
      | None \<Rightarrow> (if ci_prefix pat (c # cs) then Some [] else None))"

text \<open>Decimal rendering of an integer, Python's \<open>str(index)\<close>.\<close>

definition digit_char :: "nat \<Rightarrow> char" where
  "digit_char d = char_of (48 + d)"

function str_nat :: "nat \<Rightarrow> string" where
  "str_nat n = (if n < 10 then [digit_char n] else str_nat (n div 10) @ [digit_char (n mod 10)])"
  by pat_completeness auto
termination
  by (relation "measure (\<lambda>n. n)") auto

definition str_int :: "int \<Rightarrow> string" where
  "str_int i = (if i < 0 then CHR ''-'' # str_nat (nat (- i)) else str_nat (nat i))"

text \<open>
  Library calls whose behaviour is fixed outside the repository are parameters of the
  model: the codecs (\<open>str.encode\<close>, \<open>bytes.decode(errors="replace")\<close>, both may raise),
  the title substitution \<open>re.sub(rb"<title.*</title>", repl, doc, 18)\<close> of \<open>dumpall\<close> (its
  replacement is a template, so it may raise), the two charset expressions of
  \<open>fixencoding\<close> (\<open>asciito1252re.sub(rb"\1windows-1252\4", text, 1)\<close> and group 1 of
  \<open>findcharsetre.search(text)\<close>), \<open>urllib.parse.unquote\<close> and \<open>urlparse\<close> (scheme and path;
  \<open>None\<close> stands for an attribute without a value, on which the use of the result
  raises), the start tags that \<open>HTMLParser.feed\<close> and then \<open>HTMLParser.close\<close> report for
  a text, \<open>rclexecm.htmlescape\<close> and \<open>rclexecm.makebytes\<close>, \<open>int()\<close> on an address, and
  the timestamp of a zip member's \<open>date_time\<close> (\<open>None\<close> when \<open>datetime\<close> rejects it).
\<close>

record pylib =
  encode :: "string \<Rightarrow> string \<Rightarrow> error + bytes"
  decode :: "string \<Rightarrow> bytes \<Rightarrow> error + string"
  resub_title :: "bytes \<Rightarrow> bytes \<Rightarrow> error + bytes"
  asciito1252_sub :: "bytes \<Rightarrow> bytes"
  findcharset :: "bytes \<Rightarrow> string option"
  unquote :: "string \<Rightarrow> string"
  urlparse :: "string option \<Rightarrow> error + (string \<times> string)"
  starttags :: "string \<Rightarrow> (string \<times> (string \<times> string option) list) list"
  closetags :: "string \<Rightarrow> (string \<times> (string \<times> string option) list) list"
  htmlescape :: "bytes \<Rightarrow> bytes"
  makebytes :: "string \<Rightarrow> bytes"
  py_int :: "pyval \<Rightarrow> int option"
  timestamp :: "int list \<Rightarrow> int option"

text \<open>\<open>s.split(sep)\<close> for a one-character separator, and \<open>sep.join(parts)\<close>.\<close>

fun split_on :: "char \<Rightarrow> string \<Rightarrow> string list" where
  "split_on sep [] = [[]]"
| "split_on sep (c # cs) =
     (if c = sep then [] # split_on sep cs
      else (case split_on sep cs of
              [] \<Rightarrow> [[c]]
            | w # ws \<Rightarrow> (c # w) # ws))"

fun join_on :: "char \<Rightarrow> string list \<Rightarrow> string" where
  "join_on sep [] = []"
| "join_on sep [w] = w"
| "join_on sep (w # v # ws) = w @ sep # join_on sep (v # ws)"

text \<open>\<open>s.rstrip(chars)\<close>, \<open>s.lstrip(chars)\<close> and \<open>s.strip(chars)\<close>.\<close>

definition rstrip :: "string \<Rightarrow> string \<Rightarrow> string" where
  "rstrip chars s = rev (dropWhile (\<lambda>c. c \<in> set chars) (rev s))"

definition lstrip :: "string \<Rightarrow> string \<Rightarrow> string" where
  "lstrip chars s = dropWhile (\<lambda>c. c \<in> set chars) s"

definition strip :: "string \<Rightarrow> string \<Rightarrow> string" where
  "strip chars s = rstrip chars (lstrip chars s)"

definition startswith :: "string \<Rightarrow> string \<Rightarrow> bool" where
  "startswith s p = (take (length p) s = p)"

subsection \<open>\<open>posixpath\<close>\<close>

text \<open>
  \<open>posixpath.normpath\<close>, \<open>join\<close> (two arguments) and \<open>dirname\<close>, written after the
  standard library. The list of components under construction is kept reversed.
\<close>

definition norm_step :: "bool \<Rightarrow> string list \<Rightarrow> string \<Rightarrow> string list" where
  "norm_step initial new_comps cmp =
     (if cmp = [] \<or> cmp = ''.'' then new_comps
      else if cmp \<noteq> ''..'' \<or> (\<not> initial \<and> new_comps = [])
              \<or> (new_comps \<noteq> [] \<and> hd new_comps = ''..'')
      then cmp # new_comps
      else if new_comps \<noteq> [] then tl new_comps
      else new_comps)"

definition initial_slashes :: "string \<Rightarrow> nat" where
  "initial_slashes path =
     (if startswith path ''/''
      then (if startswith path ''//'' \<and> \<not> startswith path ''///'' then 2 else 1)
      else 0)"

definition normpath :: "string \<Rightarrow> string" where
  "normpath path =
     (if path = [] then ''.''
      else (let k = initial_slashes path;
                comps = rev (foldl (norm_step (k \<noteq> 0)) [] (split_on CHR ''/'' path));
                path' = replicate k CHR ''/'' @ join_on CHR ''/'' comps
            in if path' = [] then ''.'' else path'))"

definition pjoin :: "string \<Rightarrow> string \<Rightarrow> string" where
  "pjoin a b =
     (if startswith b ''/'' then b
      else if a = [] \<or> last a = CHR ''/'' then a @ b
      else a @ ''/'' @ b)"

definition dirname :: "string \<Rightarrow> string" where
  "dirname p =
     (let hd_part = rev (dropWhile (\<lambda>c. c \<noteq> CHR ''/'') (rev p))
      in if hd_part \<noteq> [] \<and> hd_part \<noteq> replicate (length hd_part) CHR ''/''
         then rstrip ''/'' hd_part else hd_part)"

text \<open>\<open>posixpath.basename\<close>: the text after the last slash.\<close>

definition basename :: "string \<Rightarrow> string" where
  "basename p = rev (takeWhile (\<lambda>c. c \<noteq> CHR ''/'') (rev p))"

section \<open>The CHM filter: \<open>rclCHM\<close> (rclchm.py)\<close>

text \<open>
  The \<open>chm.CHMFile\<close> object as the filter sees it: whether \<open>LoadCHM\<close> succeeds on the
  file, and what the loaded container answers. \<open>ResolveObject\<close> returns a status and a
  unit handle, \<open>RetrieveObject\<close> a length and the data. \<open>CHM_RESOLVE_SUCCESS\<close> comes from
  the native library and is taken as a parameter of the container.
\<close>

record chmfile =
  LoadCHM :: bool
  CHM_RESOLVE_SUCCESS :: int
  ResolveObject :: "bytes \<Rightarrow> int \<times> nat"
  RetrieveObject :: "nat \<Rightarrow> int \<times> bytes"
  GetTopicsTree :: "bytes option"
  home :: "pyval option"
  title :: pyval

text \<open>
  The extractor object. \<open>catenate\<close> holds the truth value of the configuration parameter,
  \<open>mimetype\<close> the last value given to \<open>em.setmimetype\<close>, \<open>closecount\<close> the number of calls
  of \<open>CloseCHM\<close>, \<open>rclog\<close> the messages given to \<open>em.rclog\<close>.
\<close>

record rclCHM =
  contents :: "bytes list"
  chm :: chmfile
  catenate :: bool
  currentindex :: int
  charset :: string
  mimetype :: pyval
  closecount :: nat
  rclog :: "string list"

type_synonym result = "bool \<times> pyval \<times> pyval \<times> eofstate"

definition rclaptg_chm :: bytes where
  "rclaptg_chm = ''<meta name=\"rclaptg\" content=\"chm\"></head>''"

text \<open>
  \<open>extractone\<close>: a \<open>str\<close> path is first encoded with the session's charset, which may
  raise. The end-of-stream flag is computed from the cursor \<open>currentindex\<close> and the length
  of the contents list; the path takes no part in it.
\<close>

definition extractone :: "'x pylib_scheme \<Rightarrow> rclCHM \<Rightarrow> pyval \<Rightarrow> bool \<Rightarrow> error + result" where
  "extractone lib s pathv norclaptag =
     (case (case pathv of PyStr p \<Rightarrow> encode lib (charset s) p | PyBytes p \<Rightarrow> Inr p) of
        Inl e \<Rightarrow> Inl e
      | Inr path \<Rightarrow>
         (let iseof = (if currentindex s \<ge> int (length (contents s)) - 1 then eofnext else noteof);
              (res, ui) = ResolveObject (chm s) path
          in if res \<noteq> CHM_RESOLVE_SUCCESS (chm s) then Inr (False, PyStr [], PyBytes path, iseof)
             else (let (res', doc) = RetrieveObject (chm s) ui
                   in if res' > 0
                      then Inr (True,
                            PyBytes (if \<not> norclaptag then re_sub_ci ''</head>'' rclaptg_chm doc else doc),
                            PyBytes path, iseof)
                      else Inr (False, PyStr [], PyBytes path, iseof))))"

definition closefile :: "rclCHM \<Rightarrow> rclCHM" where
  "closefile s = s\<lparr>closecount := Suc (closecount s)\<rparr>"

definition getipath :: "'x pylib_scheme \<Rightarrow> rclCHM \<Rightarrow> pyval \<Rightarrow> error + result" where
  "getipath lib s ipath = extractone lib s ipath False"

subsection \<open>\<open>dumpall\<close>\<close>

text \<open>
  \<open>_headerre.search(doc)\<close> for \<open>(<head.*</head>)\<close>, case-insensitive, dot matching
  newlines: only whether it matches is used. \<open>_bodyre.search(doc)\<close> for
  \<open><body[^>]*>(.*)</body>\<close>: group 1 of the leftmost match, the greedy \<open>.*\<close> reaching the
  last closing tag.
\<close>

definition headerre_search :: "bytes \<Rightarrow> bool" where
  "headerre_search doc =
     (case ci_after ''<head'' doc of
        None \<Rightarrow> False
      | Some r \<Rightarrow> ci_after ''</head>'' r \<noteq> None)"

definition bodyre_search :: "bytes \<Rightarrow> bytes option" where
  "bodyre_search doc =
     (case ci_after ''<body'' doc of
        None \<Rightarrow> None
      | Some r \<Rightarrow>
          (case dropWhile (\<lambda>c. c \<noteq> CHR ''>'') r of
             [] \<Rightarrow> None
           | g # after \<Rightarrow> ci_before_last ''</body>'' after))"

text \<open>The title of the combined document: \<open>chm.title\<close>, encoded when it is a \<open>str\<close>.\<close>

definition title_bytes :: "'x pylib_scheme \<Rightarrow> rclCHM \<Rightarrow> error + bytes" where
  "title_bytes lib s =
     (case title (chm s) of
        PyStr t \<Rightarrow> encode lib (charset s) t
      | PyBytes t \<Rightarrow> Inr t)"

text \<open>
  One round of the loop of \<open>dumpall\<close>, on the pair \<open>(first, alltxt)\<close>. A failed extraction
  is skipped. Note that \<open>re.sub\<close> is applied to the whole document \<open>doc\<close>, and that \<open>first\<close>
  is cleared only once a document with a head region was seen.
\<close>

definition dumpall_step :: "'x pylib_scheme \<Rightarrow> rclCHM \<Rightarrow> bytes \<Rightarrow> bool \<times> bytes \<Rightarrow> error + (bool \<times> bytes)" where
  "dumpall_step lib s pth st =
     (let (first, alltxt) = st
      in case extractone lib s (PyBytes pth) True of
           Inl e \<Rightarrow> Inl e
         | Inr (ret, docv, path, iseof) \<Rightarrow>
            (if \<not> ret then Inr (first, alltxt)
             else (case docv of
                     PyStr d \<Rightarrow> Inl TypeError
                   | PyBytes doc \<Rightarrow>
                      (let hd_res =
                             (if first \<and> headerre_search doc
                              then (case title_bytes lib s of
                                      Inl e \<Rightarrow> Inl e
                                    | Inr t \<Rightarrow>
                                       (case resub_title lib (''<title>'' @ t @ ''</title>'') doc of
                                          Inl e \<Rightarrow> Inl e
                                        | Inr header \<Rightarrow> Inr (False, alltxt @ header @ ''<body>'')))
                              else Inr (first, alltxt))
                       in case hd_res of
                            Inl e \<Rightarrow> Inl e
                          | Inr (first', alltxt') \<Rightarrow>
                             (case bodyre_search doc of
                                None \<Rightarrow> Inr (first', alltxt')
                              | Some body \<Rightarrow> Inr (first', alltxt' @ body))))))"

fun dumpall_loop :: "'x pylib_scheme \<Rightarrow> rclCHM \<Rightarrow> bytes list \<Rightarrow> bool \<times> bytes \<Rightarrow> error + (bool \<times> bytes)" where
  "dumpall_loop lib s [] st = Inr st"
| "dumpall_loop lib s (pth # pths) st =
     (case dumpall_step lib s pth st of
        Inl e \<Rightarrow> Inl e
      | Inr st' \<Rightarrow> dumpall_loop lib s pths st')"

definition dumpall :: "'x pylib_scheme \<Rightarrow> rclCHM \<Rightarrow> error + bytes" where
  "dumpall lib s =
     (case dumpall_loop lib s (contents s) (True, []) of
        Inl e \<Rightarrow> Inl e
      | Inr (first, alltxt) \<Rightarrow> Inr (alltxt @ ''</body></html>''))"

subsection \<open>\<open>getnext\<close>\<close>

text \<open>
  The result and the updated extractor are returned; \<open>dumpall\<close> and the indexing of the
  contents list can raise.
\<close>

definition getnext :: "'x pylib_scheme \<Rightarrow> rclCHM \<Rightarrow> error + (result \<times> rclCHM)" where
  "getnext lib s =
     (if catenate s
      then (case dumpall lib s of
              Inl e \<Rightarrow> Inl e
            | Inr alltxt \<Rightarrow>
                (if alltxt \<noteq> [] then Inr ((True, PyBytes alltxt, PyStr [], eofnext), closefile s)
                 else Inr ((False, PyStr [], PyStr [], eofnow), closefile s)))
      else if currentindex s = -1
      then (let s1 = s\<lparr>currentindex := 0, mimetype := PyStr ''text/plain''\<rparr>
            in if length (contents s1) = 0
               then Inr ((True, PyStr [], PyStr [], eofnext), closefile s1)
               else Inr ((True, PyStr [], PyStr [], noteof), s1))
      else if currentindex s \<ge> int (length (contents s))
      then Inr ((False, PyStr [], PyStr [], eofnow), closefile s)
      else (case py_index (contents s) (currentindex s) of
              Inl e \<Rightarrow> Inl e
            | Inr p \<Rightarrow>
                (case extractone lib s (PyBytes p) False of
                   Inl e \<Rightarrow> Inl e
                 | Inr ret \<Rightarrow>
                    (let s1 = (if snd (snd (snd ret)) = eofnext \<or> snd (snd (snd ret)) = eofnow
                               then closefile s else s)
                     in Inr (ret, s1\<lparr>currentindex := currentindex s1 + 1\<rparr>)))))"

text \<open>Repeated calls, as the transport loop makes them; the first error ends the run.\<close>

fun getnext_run :: "'x pylib_scheme \<Rightarrow> nat \<Rightarrow> rclCHM \<Rightarrow> error + result list" where
  "getnext_run lib 0 s = Inr []"
| "getnext_run lib (Suc k) s =
     (case getnext lib s of
        Inl e \<Rightarrow> Inl e
      | Inr (r, s') \<Rightarrow> (case getnext_run lib k s' of Inl e \<Rightarrow> Inl e | Inr rs \<Rightarrow> Inr (r # rs)))"

subsection \<open>Helper routines, \<open>fixencoding\<close>\<close>

text \<open>
  \<open>getfile\<close> returns the empty \<open>str\<close> when the path does not resolve or the retrieval
  yields nothing, and the document (\<open>bytes\<close>) otherwise. It is only called with \<open>bytes\<close>
  paths.
\<close>

definition getfile :: "chmfile \<Rightarrow> bytes \<Rightarrow> pyval" where
  "getfile chmfile path =
     (let (res, ui) = ResolveObject chmfile path
      in if res \<noteq> CHM_RESOLVE_SUCCESS chmfile then PyStr []
         else (let (res', doc) = RetrieveObject chmfile ui
               in if res' = 0 then PyStr [] else PyBytes doc))"

definition peekfile :: "'x pylib_scheme \<Rightarrow> chmfile \<Rightarrow> pyval \<Rightarrow> string \<Rightarrow> error + bool" where
  "peekfile lib chmfile pathv cs =
     (case (case pathv of PyStr p \<Rightarrow> encode lib cs p | PyBytes p \<Rightarrow> Inr p) of
        Inl e \<Rightarrow> Inl e
      | Inr path \<Rightarrow> Inr (fst (ResolveObject chmfile path) = CHM_RESOLVE_SUCCESS chmfile))"

text \<open>
  \<open>fixencoding\<close> returns the decoded text and the charset. The variable \<open>charset\<close> is
  assigned only in the branch for \<open>bytes\<close>, so the \<open>return\<close> raises for a \<open>str\<close> argument.
\<close>

definition fixencoding :: "'x pylib_scheme \<Rightarrow> pyval \<Rightarrow> error + (string \<times> string)" where
  "fixencoding lib textv =
     (case textv of
        PyBytes text0 \<Rightarrow>
          (let text1 = asciito1252_sub lib text0;
               cs = (case findcharset lib text1 of Some m \<Rightarrow> m | None \<Rightarrow> ''cp1252'')
           in case decode lib cs text1 of
                Inl e \<Rightarrow> Inl e
              | Inr text2 \<Rightarrow> Inr (text2, cs))
      | PyStr text0 \<Rightarrow> Inl UnboundLocalError)"

subsection \<open>\<open>ChmTopicsParser.handle_starttag\<close>\<close>

text \<open>
  The attribute loop: the last \<open>name\<close> and the last \<open>value\<close> attribute win; both start as
  the empty string, and an attribute without a value gives \<open>None\<close>.
\<close>

fun param_attrs :: "(string \<times> string option) list \<Rightarrow> string option \<times> string option
    \<Rightarrow> string option \<times> string option" where
  "param_attrs [] nv = nv"
| "param_attrs ((nm, val) # attrs) (name, valu) =
     param_attrs attrs
       (if nm = ''name'' then val else name, if nm = ''value'' then val else valu)"

text \<open>
  The candidate path \<open>localpath\<close> for a decoded value: the value itself when it has no
  colon, the last of exactly four colon-separated fields when that field and the second
  one are non-empty and the field resolves in the container, and nothing otherwise.
\<close>

definition topics_localpath :: "'x pylib_scheme \<Rightarrow> rclCHM \<Rightarrow> string \<Rightarrow> error + string" where
  "topics_localpath lib rc valu =
     (let ll = split_on CHR '':'' valu
      in if length ll = 1 then Inr valu
         else if length ll = 4 \<and> ll ! 3 \<noteq> [] \<and> ll ! 1 \<noteq> []
         then (case peekfile lib (chm rc) (PyStr (ll ! 3)) (charset rc) of
                 Inl e \<Rightarrow> Inl e
               | Inr ok \<Rightarrow> Inr (if \<not> ok then [] else ll ! 3))
         else Inr [])"

definition topics_handle_starttag ::
    "'x pylib_scheme \<Rightarrow> rclCHM \<Rightarrow> string \<times> (string \<times> string option) list \<Rightarrow> error + rclCHM" where
  "topics_handle_starttag lib rc ta =
     (let (tag, attrs) = ta
      in if tag \<noteq> ''param'' then Inr rc
         else (let (name, valu) = param_attrs attrs (Some [], Some [])
               in if name \<noteq> Some ''Local'' \<or> valu = Some [] then Inr rc
                  else (case valu of
                          None \<Rightarrow> Inl TypeError
                        | Some v \<Rightarrow>
                           (case topics_localpath lib rc (unquote lib v) of
                              Inl e \<Rightarrow> Inl e
                            | Inr localpath \<Rightarrow>
                               (if length localpath \<noteq> 0 \<and> CHR ''#'' \<notin> set localpath
                                then (case encode lib (charset rc)
                                             (if hd localpath \<noteq> CHR ''/'' then ''/'' @ localpath
                                              else localpath) of
                                        Inl e \<Rightarrow> Inl e
                                      | Inr b \<Rightarrow> Inr (rc\<lparr>contents := contents rc @ [b]\<rparr>))
                                else Inr rc)))))"

text \<open>
  \<open>feed\<close> followed by \<open>close\<close> on the topics parser: the handler runs on every start tag;
  the first exception ends the parse and leaves \<open>openfile\<close>.
\<close>

fun topics_feed :: "'x pylib_scheme \<Rightarrow> rclCHM \<Rightarrow> (string \<times> (string \<times> string option) list) list
    \<Rightarrow> error + rclCHM" where
  "topics_feed lib rc [] = Inr rc"
| "topics_feed lib rc (ta # tas) =
     (case topics_handle_starttag lib rc ta of
        Inl e \<Rightarrow> Inl e
      | Inr rc' \<Rightarrow> topics_feed lib rc' tas)"

subsection \<open>\<open>ChmWalker\<close>\<close>

fun href_attr :: "(string \<times> string option) list \<Rightarrow> string option \<Rightarrow> string option" where
  "href_attr [] href = href"
| "href_attr ((nm, val) # attrs) href = href_attr attrs (if nm = ''href'' then val else href)"

text \<open>
  The first half of \<open>ChmWalker.handle_starttag\<close>: the normalised target \<open>npath\<close> of an
  anchor, \<open>None\<close> when the tag gives no path. The test \<open>res.scheme.lower == "ms-its"\<close>
  compares a method with a string and is always false, so only references without a
  scheme are followed.
\<close>

definition walker_target ::
    "'x pylib_scheme \<Rightarrow> rclCHM \<Rightarrow> bytes \<Rightarrow> string \<times> (string \<times> string option) list
     \<Rightarrow> error + bytes option" where
  "walker_target lib rc dir ta =
     (let (tag, attrs) = ta
      in if tag \<noteq> ''a'' then Inr None
         else (case urlparse lib (href_attr attrs (Some [])) of
                 Inl e \<Rightarrow> Inl e
               | Inr (scheme, rpath) \<Rightarrow>
                  (case (if scheme = [] \<or> False
                         then (let lpath = split_on CHR '':'' rpath
                               in if length lpath = 3
                                  then (case peekfile lib (chm rc) (PyStr (lpath ! 2)) (charset rc) of
                                          Inl e \<Rightarrow> Inl e
                                        | Inr ok \<Rightarrow> Inr (if \<not> ok then [] else lpath ! 2))
                                  else if length lpath = 1 then Inr (lpath ! 0)
                                  else Inr [])
                         else Inr []) of
                     Inl e \<Rightarrow> Inl e
                   | Inr path \<Rightarrow>
                      (if path = [] then Inr None
                       else (case encode lib (charset rc) path of
                               Inl e \<Rightarrow> Inl e
                             | Inr bpath \<Rightarrow>
                                Inr (Some (if hd path = CHR ''/'' then normpath bpath
                                           else normpath (pjoin dir bpath))))))))"

text \<open>
  \<open>feed\<close> on a walker with directory \<open>dir\<close>, over the start tags of its text. A target that
  is not yet in the contents list and whose document is non-empty gets a new walker:
  its constructor appends the normalised path, and the new walker is fed the decoded
  document; whatever is raised there is dropped by the \<open>except\<close> clause, but what was
  appended to the shared list stays. The result is \<open>None\<close> when the recursion is deeper
  than \<open>fuel\<close>; otherwise it holds the exception that left \<open>feed\<close>, if any, and the list.
\<close>

fun walker_feed ::
    "nat \<Rightarrow> 'x pylib_scheme \<Rightarrow> rclCHM \<Rightarrow> bytes \<Rightarrow> (string \<times> (string \<times> string option) list) list
     \<Rightarrow> bytes list \<Rightarrow> (error option \<times> bytes list) option" where
  "walker_feed fuel lib rc dir [] cs = Some (None, cs)"
| "walker_feed fuel lib rc dir (ta # tas) cs =
     (case walker_target lib rc dir ta of
        Inl e \<Rightarrow> Some (Some e, cs)
      | Inr None \<Rightarrow> walker_feed fuel lib rc dir tas cs
      | Inr (Some npath) \<Rightarrow>
         (if npath \<in> set cs then walker_feed fuel lib rc dir tas cs
          else if \<not> truthy (getfile (chm rc) npath) then walker_feed fuel lib rc dir tas cs
          else (case fuel of
                  0 \<Rightarrow> None
                | Suc f \<Rightarrow>
                   (case fixencoding lib (getfile (chm rc) npath) of
                      Inl e \<Rightarrow> walker_feed fuel lib rc dir tas (cs @ [normpath npath])
                    | Inr (t, c) \<Rightarrow>
                       (case walker_feed f lib rc (dirname (normpath npath)) (starttags lib t)
                               (cs @ [normpath npath]) of
                          None \<Rightarrow> None
                        | Some (exc, cs') \<Rightarrow> walker_feed fuel lib rc dir tas cs')))))"

subsection \<open>\<open>openfile\<close>\<close>

text \<open>The loop that removes duplicates and keeps the order of first occurrence.\<close>

fun dedup :: "bytes list \<Rightarrow> bytes list \<Rightarrow> bytes list \<Rightarrow> bytes list" where
  "dedup u ct [] = ct"
| "dedup u ct (t # ts) = (if t \<notin> set u then dedup (t # u) (ct @ [t]) ts else dedup u ct ts)"

text \<open>
  \<open>openfile\<close> returns the truth value it reports and the extractor. \<open>None\<close> means that the
  link walk went deeper than \<open>fuel\<close>. \<open>openfile_finish\<close> is the end of the function (the
  duplicates are removed), \<open>openfile_walk\<close> the branch taken when there is no topics tree
  but a home page \<open>h\<close>. The walker for the home page is created with \<open>chm.home\<close> as it
  stands, before the charset of the home page is known.
\<close>

definition openfile_finish :: "rclCHM \<Rightarrow> error + (bool \<times> rclCHM)" where
  "openfile_finish rc = Inr (True, rc\<lparr>contents := dedup [] [] (contents rc)\<rparr>)"

definition openfile_walk :: "nat \<Rightarrow> 'x pylib_scheme \<Rightarrow> rclCHM \<Rightarrow> bytes \<Rightarrow> (error + (bool \<times> rclCHM)) option" where
  "openfile_walk fuel lib rc2 h =
     (let home1 = (if hd h \<noteq> CHR ''/'' then ''/'' @ h else h);
          text = getfile (chm rc2) home1
      in if \<not> truthy text
         then Some (Inr (False, rc2\<lparr>rclog := rclog rc2 @ [''No topics and no home content'']\<rparr>))
         else (let wpath = normpath h;
                   cs0 = contents rc2 @ [wpath]
               in case fixencoding lib text of
                    Inl e \<Rightarrow> Some (Inl e)
                  | Inr (t, cs) \<Rightarrow>
                     (case walker_feed fuel lib (rc2\<lparr>charset := cs\<rparr>) (dirname wpath)
                             (starttags lib t @ closetags lib t) cs0 of
                        None \<Rightarrow> None
                      | Some (Some e, cs') \<Rightarrow> Some (Inl e)
                      | Some (None, cs') \<Rightarrow>
                         Some (openfile_finish (rc2\<lparr>charset := cs, contents := cs'\<rparr>)))))"

definition openfile :: "nat \<Rightarrow> 'x pylib_scheme \<Rightarrow> rclCHM \<Rightarrow> (error + (bool \<times> rclCHM)) option" where
  "openfile fuel lib rc0 =
     (let rc1 = rc0\<lparr>currentindex := -1, contents := []\<rparr>
      in if \<not> LoadCHM (chm rc1)
         then Some (Inr (False, rc1\<lparr>rclog := rclog rc1 @ [''LoadCHM failed'']\<rparr>))
         else (let rc2 = rc1\<lparr>charset := ''cp1252''\<rparr>
               in case (case GetTopicsTree (chm rc2) of None \<Rightarrow> None
                        | Some t \<Rightarrow> if t = [] then None else Some t) of
                    Some topics \<Rightarrow>
                      (case fixencoding lib (PyBytes topics) of
                         Inl e \<Rightarrow> Some (Inl e)
                       | Inr (text, cs) \<Rightarrow>
                          (case topics_feed lib (rc2\<lparr>charset := cs\<rparr>)
                                  (starttags lib text @ closetags lib text) of
                             Inl e \<Rightarrow> Some (Inl e)
                           | Inr rc3 \<Rightarrow> Some (openfile_finish rc3)))
                  | None \<Rightarrow>
                      (case (case home (chm rc2) of None \<Rightarrow> None
                             | Some h \<Rightarrow> if truthy h then Some h else None) of
                         None \<Rightarrow> Some (Inr (False, rc2\<lparr>rclog := rclog rc2 @ [''No topics and no home'']\<rparr>))
                       | Some (PyStr h) \<Rightarrow> Some (Inl TypeError)
                       | Some (PyBytes h) \<Rightarrow> openfile_walk fuel lib rc2 h)))"

subsection \<open>The arguments of \<open>fixencoding\<close>\<close>

text \<open>
  \<open>openfile\<close> once more, with one addition: the list of the arguments given to
  \<open>fixencoding\<close>, in the order of the calls, is returned beside the result. There are three
  call sites: the topics object and the home page in \<open>openfile\<close>, and the linked document
  in \<open>ChmWalker.handle_starttag\<close>, where the call stands inside the \<open>try\<close> whose exceptions
  are dropped. Apart from the list, \<open>walker_feed_traced\<close>, \<open>openfile_walk_traced\<close> and
  \<open>openfile_traced\<close> are \<open>walker_feed\<close>, \<open>openfile_walk\<close> and \<open>openfile\<close>.
\<close>

fun nonempty_bytes :: "pyval \<Rightarrow> bool" where
  "nonempty_bytes (PyBytes b) = (b \<noteq> [])"
| "nonempty_bytes (PyStr s) = False"

fun walker_feed_traced ::
    "nat \<Rightarrow> 'x pylib_scheme \<Rightarrow> rclCHM \<Rightarrow> bytes \<Rightarrow> (string \<times> (string \<times> string option) list) list
     \<Rightarrow> bytes list \<Rightarrow> pyval list \<Rightarrow> (error option \<times> bytes list \<times> pyval list) option" where
  "walker_feed_traced fuel lib rc dir [] cs tr = Some (None, cs, tr)"
| "walker_feed_traced fuel lib rc dir (ta # tas) cs tr =
     (case walker_target lib rc dir ta of
        Inl e \<Rightarrow> Some (Some e, cs, tr)
      | Inr None \<Rightarrow> walker_feed_traced fuel lib rc dir tas cs tr
      | Inr (Some npath) \<Rightarrow>
         (if npath \<in> set cs then walker_feed_traced fuel lib rc dir tas cs tr
          else if \<not> truthy (getfile (chm rc) npath)
          then walker_feed_traced fuel lib rc dir tas cs tr
          else (case fuel of
                  0 \<Rightarrow> None
                | Suc f \<Rightarrow>
                   (case fixencoding lib (getfile (chm rc) npath) of
                      Inl e \<Rightarrow>
                        walker_feed_traced fuel lib rc dir tas (cs @ [normpath npath])
                          (tr @ [getfile (chm rc) npath])
                    | Inr (t, c) \<Rightarrow>
                       (case walker_feed_traced f lib rc (dirname (normpath npath))
                               (starttags lib t) (cs @ [normpath npath])
                               (tr @ [getfile (chm rc) npath]) of
                          None \<Rightarrow> None
                        | Some (exc, cs', tr') \<Rightarrow>
                            walker_feed_traced fuel lib rc dir tas cs' tr')))))"

definition openfile_walk_traced ::
    "nat \<Rightarrow> 'x pylib_scheme \<Rightarrow> rclCHM \<Rightarrow> bytes
     \<Rightarrow> ((error + (bool \<times> rclCHM)) \<times> pyval list) option" where
  "openfile_walk_traced fuel lib rc2 h =
     (let home1 = (if hd h \<noteq> CHR ''/'' then ''/'' @ h else h);
          text = getfile (chm rc2) home1
      in if \<not> truthy text
         then Some (Inr (False, rc2\<lparr>rclog := rclog rc2 @ [''No topics and no home content'']\<rparr>),
                    [])
         else (let wpath = normpath h;
                   cs0 = contents rc2 @ [wpath]
               in case fixencoding lib text of
                    Inl e \<Rightarrow> Some (Inl e, [text])
                  | Inr (t, cs) \<Rightarrow>
                     (case walker_feed_traced fuel lib (rc2\<lparr>charset := cs\<rparr>) (dirname wpath)
                             (starttags lib t @ closetags lib t) cs0 [text] of
                        None \<Rightarrow> None
                      | Some (Some e, cs', tr) \<Rightarrow> Some (Inl e, tr)
                      | Some (None, cs', tr) \<Rightarrow>
                         Some (openfile_finish (rc2\<lparr>charset := cs, contents := cs'\<rparr>), tr))))"

definition openfile_traced ::
    "nat \<Rightarrow> 'x pylib_scheme \<Rightarrow> rclCHM \<Rightarrow> ((error + (bool \<times> rclCHM)) \<times> pyval list) option" where
  "openfile_traced fuel lib rc0 =
     (let rc1 = rc0\<lparr>currentindex := -1, contents := []\<rparr>
      in if \<not> LoadCHM (chm rc1)
         then Some (Inr (False, rc1\<lparr>rclog := rclog rc1 @ [''LoadCHM failed'']\<rparr>), [])
         else (let rc2 = rc1\<lparr>charset := ''cp1252''\<rparr>
               in case (case GetTopicsTree (chm rc2) of None \<Rightarrow> None
                        | Some t \<Rightarrow> if t = [] then None else Some t) of
                    Some topics \<Rightarrow>
                      (case fixencoding lib (PyBytes topics) of
                         Inl e \<Rightarrow> Some (Inl e, [PyBytes topics])
                       | Inr (text, cs) \<Rightarrow>
                          (case topics_feed lib (rc2\<lparr>charset := cs\<rparr>)
                                  (starttags lib text @ closetags lib text) of
                             Inl e \<Rightarrow> Some (Inl e, [PyBytes topics])
                           | Inr rc3 \<Rightarrow> Some (openfile_finish rc3, [PyBytes topics])))
                  | None \<Rightarrow>
                      (case (case home (chm rc2) of None \<Rightarrow> None
                             | Some h \<Rightarrow> if truthy h then Some h else None) of
                         None \<Rightarrow>
                           Some (Inr (False, rc2\<lparr>rclog := rclog rc2 @ [''No topics and no home'']\<rparr>),
                                 [])
                       | Some (PyStr h) \<Rightarrow> Some (Inl TypeError, [])
                       | Some (PyBytes h) \<Rightarrow> openfile_walk_traced fuel lib rc2 h)))"

section \<open>The GNU info filter: \<open>InfoExtractor\<close> (rclinfo.py)\<close>

text \<open>
  The fourth component of a result is one of the transport's states, except that
  \<open>extractone\<close> returns the Python value \<open>True\<close> there for an index past the end.
\<close>

datatype eofval = Eof eofstate | PyTrue

type_synonym iresult = "bool \<times> pyval \<times> pyval \<times> eofval"

record InfoExtractor =
  info_contents :: "(bytes \<times> bytes) list"
  info_currentindex :: int
  info_mimetype :: pyval
  info_log :: "string list"

definition info_extractone :: "'x pylib_scheme \<Rightarrow> InfoExtractor \<Rightarrow> int \<Rightarrow> error + (iresult \<times> InfoExtractor)" where
  "info_extractone lib s index =
     (if index \<ge> int (length (info_contents s)) then Inr ((False, PyStr [], PyStr [], PyTrue), s)
      else (case py_index (info_contents s) index of
              Inl e \<Rightarrow> Inl e
            | Inr (nodename0, docdata0) \<Rightarrow>
               (let nodename = htmlescape lib nodename0;
                    docdata1 = htmlescape lib docdata0;
                    docdata =
                      [CHR 0x0A] @ ''<html>'' @ [CHR 0x0A] @ ''  <head>'' @ [CHR 0x0A]
                      @ ''      <title>'' @ nodename @ ''</title>'' @ [CHR 0x0A]
                      @ ''      <meta name=\"rclaptg\" content=\"gnuinfo\">'' @ [CHR 0x0A]
                      @ ''   </head>'' @ [CHR 0x0A] @ ''   <body>'' @ [CHR 0x0A]
                      @ ''   <pre style=\"white-space: pre-wrap\">'' @ [CHR 0x0A] @ ''   ''
                      @ docdata1
                      @ [CHR 0x0A] @ ''   </pre></body>'' @ [CHR 0x0A] @ ''</html>'' @ [CHR 0x0A];
                    iseof = (if info_currentindex s \<ge> int (length (info_contents s)) - 1
                             then eofnext else noteof)
                in Inr ((True, PyBytes docdata, PyStr (str_int index), Eof iseof),
                        s\<lparr>info_mimetype := PyStr ''text/html''\<rparr>))))"

definition info_getipath :: "'x pylib_scheme \<Rightarrow> InfoExtractor \<Rightarrow> pyval \<Rightarrow> error + (iresult \<times> InfoExtractor)" where
  "info_getipath lib s ipath =
     (case py_int lib ipath of
        None \<Rightarrow> Inr ((False, PyStr [], PyStr [], PyTrue), s)
      | Some index \<Rightarrow> info_extractone lib s index)"

definition info_getnext :: "'x pylib_scheme \<Rightarrow> InfoExtractor \<Rightarrow> error + (iresult \<times> InfoExtractor)" where
  "info_getnext lib s =
     (if info_currentindex s = -1
      then (let s1 = s\<lparr>info_currentindex := 0, info_mimetype := PyStr ''text/plain''\<rparr>;
                eof = (if length (info_contents s1) = 0 then eofnext else noteof)
            in Inr ((True, PyStr [], PyStr [], Eof eof), s1))
      else if info_currentindex s \<ge> int (length (info_contents s))
      then Inr ((False, PyStr [], PyStr [], Eof eofnow),
                s\<lparr>info_log := info_log s @ [''getnext: EOF hit'']\<rparr>)
      else (case info_extractone lib s (info_currentindex s) of
              Inl e \<Rightarrow> Inl e
            | Inr (ret, s1) \<Rightarrow> Inr (ret, s1\<lparr>info_currentindex := info_currentindex s1 + 1\<rparr>)))"

fun info_getnext_run :: "'x pylib_scheme \<Rightarrow> nat \<Rightarrow> InfoExtractor \<Rightarrow> error + iresult list" where
  "info_getnext_run lib 0 s = Inr []"
| "info_getnext_run lib (Suc k) s =
     (case info_getnext lib s of
        Inl e \<Rightarrow> Inl e
      | Inr (r, s') \<Rightarrow> (case info_getnext_run lib k s' of Inl e \<Rightarrow> Inl e | Inr rs \<Rightarrow> Inr (r # rs)))"

subsection \<open>\<open>InfoSimpleSplitter.splitinfo\<close>\<close>

text \<open>
  Node names are \<open>bytes\<close> taken from the \<open>Node:\<close> field, except that a header without that
  field leaves the default \<open>str(index)\<close>, a \<open>str\<close>. The dictionary \<open>node_dict\<close> maps a node
  name to the value of its \<open>Up:\<close> field. The counter \<open>index\<close> of the source is \<open>node_index\<close>,
  and the messages printed by the splitter are kept in \<open>msgs\<close>.
\<close>

datatype info_msg = BadLine bytes | DupNode pyval | UpMissing bytes pyval | BadTree

record splitstate =
  gotblankline :: bool
  node_index :: nat
  listout :: "(pyval \<times> bytes) list"
  node_dict :: "pyval \<rightharpoonup> bytes"
  node :: bytes
  infofile :: bytes
  nodename :: pyval
  msgs :: "info_msg list"

text \<open>
  The loop over the comma-separated pairs of a header line, on \<open>(nodename, up, infofile)\<close>.
  A pair that does not split into exactly two parts at \<open>:\<close> raises; the value of \<open>infofile\<close>
  assigned so far survives the exception.
\<close>

fun parse_pairs :: "bytes list \<Rightarrow> pyval \<times> bytes \<times> bytes \<Rightarrow> (error \<times> bytes) + (pyval \<times> bytes \<times> bytes)" where
  "parse_pairs [] st = Inr st"
| "parse_pairs (pair # pairs) (nn, up, ifile) =
     (case split_on CHR '':'' pair of
        [name0, value0] \<Rightarrow>
          (let name = strip '' '' name0; valu = strip '' '' value0
           in parse_pairs pairs
                (if name = ''Node'' then PyBytes valu else nn,
                 if name = ''Up'' then valu else up,
                 if name = ''File'' then valu else ifile))
      | _ \<Rightarrow> Inl (ValueError, ifile))"

definition end_of_line :: "splitstate \<Rightarrow> bytes \<Rightarrow> splitstate" where
  "end_of_line s line =
     s\<lparr>gotblankline := (rstrip [CHR 0x0A, CHR 0x0D] line = []), node := node s @ line\<rparr>"

text \<open>One round of the loop over the lines of the stream.\<close>

definition scan_line :: "splitstate \<Rightarrow> bytes \<Rightarrow> splitstate" where
  "scan_line s line0 =
     (if gotblankline s \<and> startswith (lstrip '' '' line0) ''File: ''
      then (let prevnodename = nodename s;
                line = rstrip [CHR 0x0A, CHR 0x0D] line0
            in case parse_pairs (split_on CHR '','' line)
                      (PyStr (str_int (int (node_index s))), ''Top'', infofile s) of
                 Inl (e, ifile) \<Rightarrow>
                   s\<lparr>infofile := ifile, msgs := msgs s @ [BadLine line],
                     nodename := prevnodename, node := node s @ line\<rparr>
               | Inr (nn, up, ifile) \<Rightarrow>
                   end_of_line
                     (s\<lparr>infofile := ifile, nodename := nn,
                        msgs := (if node_dict s nn \<noteq> None then msgs s @ [DupNode nn] else msgs s),
                        node_dict := (node_dict s)(nn \<mapsto> up),
                        listout := (if node_index s \<noteq> 0 then listout s @ [(prevnodename, node s)]
                                    else listout s),
                        node := [], node_index := node_index s + 1\<rparr>)
                     line)
      else end_of_line s line0)"

text \<open>
  The \<open>while\<close> loop that follows the \<open>Up\<close> links of one node. It ends at the name \<open>Top\<close>, at
  a name that is not in the dictionary, or after more than 50 rounds; the last two cases
  return the message that is printed. Prepending a \<open>str\<close> name to the \<open>bytes\<close> title raises.
\<close>

function title_loop :: "(pyval \<rightharpoonup> bytes) \<Rightarrow> pyval \<Rightarrow> bytes \<Rightarrow> nat \<Rightarrow> error + (info_msg option \<times> bytes)" where
  "title_loop nd nn ttl loop =
     (if nn = PyBytes ''Top'' then Inr (None, ttl)
      else (case nn of
              PyStr n \<Rightarrow> Inl TypeError
            | PyBytes n \<Rightarrow>
               (case nd nn of
                  None \<Rightarrow> Inr (Some (UpMissing (n @ '' / '' @ ttl) nn), n @ '' / '' @ ttl)
                | Some up \<Rightarrow>
                   (if loop + 1 > 50 then Inr (Some BadTree, n @ '' / '' @ ttl)
                    else title_loop nd (PyBytes up) (n @ '' / '' @ ttl) (loop + 1)))))"
  by pat_completeness auto
termination
  by (relation "measure (\<lambda>(nd, nn, ttl, loop). 51 - loop)") auto

declare title_loop.simps [simp del]

text \<open>
  The title of one node: the message of a defective node, or the display name
  \<open>infofile\<close>, followed by the accumulated path, with trailing blanks and slashes removed
  (\<open>rstrip(b" / ")\<close> strips characters, not the separator as a word).
\<close>

definition node_title :: "(pyval \<rightharpoonup> bytes) \<Rightarrow> bytes \<Rightarrow> pyval \<Rightarrow> error + (info_msg + bytes)" where
  "node_title nd ifile nn =
     (case title_loop nd nn [] 0 of
        Inl e \<Rightarrow> Inl e
      | Inr (Some m, ttl) \<Rightarrow> Inr (Inl m)
      | Inr (None, ttl) \<Rightarrow>
          Inr (Inr (rstrip '' /'' (if ttl = [] then ifile else ifile @ '' / '' @ ttl))))"

fun resolve_all :: "(pyval \<rightharpoonup> bytes) \<Rightarrow> bytes \<Rightarrow> (pyval \<times> bytes) list
    \<Rightarrow> (bytes \<times> bytes) list \<times> info_msg list \<Rightarrow> error + ((bytes \<times> bytes) list \<times> info_msg list)" where
  "resolve_all nd ifile [] acc = Inr acc"
| "resolve_all nd ifile ((nn, nod) # rest) (listout1, ms) =
     (case node_title nd ifile nn of
        Inl e \<Rightarrow> Inl e
      | Inr (Inl m) \<Rightarrow> resolve_all nd ifile rest (listout1, ms @ [m])
      | Inr (Inr ttl) \<Rightarrow> resolve_all nd ifile rest (listout1 @ [(ttl, nod)], ms))"

text \<open>The variables of \<open>splitinfo\<close> before the first line, and the whole function.\<close>

definition split_init :: "bytes \<Rightarrow> splitstate" where
  "split_init filename =
     \<lparr>gotblankline = True, node_index = 0, listout = [], node_dict = Map.empty,
      node = [], infofile = basename filename, nodename = PyBytes ''Unknown'', msgs = []\<rparr>"

definition splitinfo :: "bytes \<Rightarrow> bytes list \<Rightarrow> error + ((bytes \<times> bytes) list \<times> info_msg list)" where
  "splitinfo filename fin =
     (let s = foldl scan_line (split_init filename) fin;
          lo = (if node s \<noteq> [] then listout s @ [(nodename s, node s)] else listout s)
      in resolve_all (node_dict s) (infofile s) lo ([], msgs s))"

section \<open>The iCalendar filter: \<open>IcalExtractor\<close> (rclics.py)\<close>

record IcalExtractor =
  ics_contents :: "bytes list"
  ics_currentindex :: int
  ics_mimetype :: pyval
  ics_log :: "string list"

definition ics_extractone :: "IcalExtractor \<Rightarrow> int \<Rightarrow> error + (iresult \<times> IcalExtractor)" where
  "ics_extractone s index =
     (if index \<ge> int (length (ics_contents s)) then Inr ((False, PyStr [], PyStr [], PyTrue), s)
      else (case py_index (ics_contents s) index of
              Inl e \<Rightarrow> Inl e
            | Inr docdata \<Rightarrow>
               (let iseof = (if ics_currentindex s \<ge> int (length (ics_contents s)) - 1
                             then eofnext else noteof)
                in Inr ((True, PyBytes docdata, PyStr (str_int index), Eof iseof),
                        s\<lparr>ics_mimetype := PyStr ''text/plain''\<rparr>))))"

definition ics_getipath :: "'x pylib_scheme \<Rightarrow> IcalExtractor \<Rightarrow> pyval \<Rightarrow> error + (iresult \<times> IcalExtractor)" where
  "ics_getipath lib s ipath =
     (if ipath = PyBytes [] then ics_extractone s 0
      else (case py_int lib ipath of
              None \<Rightarrow> Inr ((False, PyStr [], PyStr [], PyTrue), s)
            | Some index \<Rightarrow> ics_extractone s index))"

definition ics_getnext :: "IcalExtractor \<Rightarrow> error + (iresult \<times> IcalExtractor)" where
  "ics_getnext s =
     (if ics_currentindex s = -1
      then (let s1 = s\<lparr>ics_currentindex := 0, ics_mimetype := PyBytes ''text/plain''\<rparr>;
                eof = (if length (ics_contents s1) = 0 then eofnext else noteof)
            in Inr ((True, PyStr [], PyStr [], Eof eof), s1))
      else if ics_currentindex s \<ge> int (length (ics_contents s))
      then Inr ((False, PyStr [], PyStr [], Eof eofnow),
                s\<lparr>ics_log := ics_log s @ [''getnext: EOF hit'']\<rparr>)
      else (case ics_extractone s (ics_currentindex s) of
              Inl e \<Rightarrow> Inl e
            | Inr (ret, s1) \<Rightarrow> Inr (ret, s1\<lparr>ics_currentindex := ics_currentindex s1 + 1\<rparr>)))"

fun ics_getnext_run :: "nat \<Rightarrow> IcalExtractor \<Rightarrow> error + iresult list" where
  "ics_getnext_run 0 s = Inr []"
| "ics_getnext_run (Suc k) s =
     (case ics_getnext s of
        Inl e \<Rightarrow> Inl e
      | Inr (r, s') \<Rightarrow> (case ics_getnext_run k s' of Inl e \<Rightarrow> Inl e | Inr rs \<Rightarrow> Inr (r # rs)))"

section \<open>The zip filter: \<open>ZipExtractor\<close> (rclzip.py)\<close>

text \<open>
  The open \<open>ZipFile\<close> as the filter sees it: \<open>getinfo\<close> (a missing name raises
  \<open>KeyError\<close>), \<open>read\<close> (which may raise) and \<open>namelist\<close>. A member's info carries its
  declared size and its \<open>date_time\<close> tuple.
\<close>

record zipinfo =
  file_size :: int
  date_time :: "int list"

record zipfile =
  getinfo :: "string \<Rightarrow> zipinfo option"
  zipread :: "string \<Rightarrow> error + bytes"
  namelist :: "string list"

text \<open>
  The extractor with the parts of the protocol object \<open>em\<close> it touches: the configured
  \<open>maxmembersize\<close>, the messages given to \<open>rclog\<close> and the fields given to \<open>setfield\<close>.
  \<open>zip\<close> is \<open>None\<close> once \<open>closefile\<close> ran. \<open>zip_reads\<close> records every call of \<open>zip.read\<close>.
\<close>

record ZipExtractor =
  zip :: "zipfile option"
  zip_currentindex :: int
  maxmembersize :: int
  zip_rclog :: "string list"
  zip_fields :: "(string \<times> string) list"
  zip_reads :: "string list"

definition zip_closefile :: "ZipExtractor \<Rightarrow> ZipExtractor" where
  "zip_closefile s = s\<lparr>zip := None\<rparr>"

text \<open>
  The body of the outer \<open>try\<close> of \<open>extractone\<close>: it yields \<open>ok\<close>, \<open>docdata\<close> and the extractor.
  Every exception inside (no open archive, unknown member, failing read) gives
  \<open>ok = False\<close> and leaves \<open>docdata\<close> as the empty \<open>str\<close>. The inner \<open>try\<close> sets the file name
  field and, when \<open>datetime\<close> accepts the date, the modification date.
\<close>

definition zip_try :: "'x pylib_scheme \<Rightarrow> ZipExtractor \<Rightarrow> string \<Rightarrow> bool \<times> pyval \<times> ZipExtractor" where
  "zip_try lib s ipath =
     (case zip s of
        None \<Rightarrow> (False, PyStr [], s)
      | Some z \<Rightarrow>
         (case getinfo z ipath of
            None \<Rightarrow> (False, PyStr [], s)
          | Some info \<Rightarrow>
             (let setfields = (\<lambda>t.
                    (let t1 = t\<lparr>zip_fields := zip_fields t @ [(''filename'', basename ipath)]\<rparr>
                     in case timestamp lib (date_time info) of
                          None \<Rightarrow> t1
                        | Some ts \<Rightarrow>
                           t1\<lparr>zip_fields := zip_fields t1 @ [(''modificationdate'', str_int ts)]\<rparr>))
              in if file_size info > maxmembersize s
                 then (True, PyStr [],
                       setfields (s\<lparr>zip_rclog := zip_rclog s @
                          [''extractone: entry '' @ ipath @ '' size '' @ str_int (file_size info)
                           @ '' too big'']\<rparr>))
                 else (case zipread z ipath of
                         Inl e \<Rightarrow> (False, PyStr [], s\<lparr>zip_reads := zip_reads s @ [ipath]\<rparr>)
                       | Inr d \<Rightarrow>
                          (True, PyBytes d, setfields (s\<lparr>zip_reads := zip_reads s @ [ipath]\<rparr>))))))"

text \<open>
  \<open>extractone\<close>: after the \<open>try\<close>, \<open>self.zip.namelist()\<close> is evaluated outside of it and
  raises \<open>AttributeError\<close> when the archive was closed.
\<close>

definition zip_extractone ::
    "'x pylib_scheme \<Rightarrow> ZipExtractor \<Rightarrow> string
     \<Rightarrow> error + ((bool \<times> pyval \<times> bytes \<times> eofstate) \<times> ZipExtractor)" where
  "zip_extractone lib s ipath =
     (let (ok, docdata, s1) = zip_try lib s ipath
      in case zip s1 of
           None \<Rightarrow> Inl AttributeError
         | Some z \<Rightarrow>
            (if zip_currentindex s1 \<ge> int (length (namelist z)) - 1
             then Inr ((ok, docdata, makebytes lib ipath, eofnext), zip_closefile s1)
             else Inr ((ok, docdata, makebytes lib ipath, noteof), s1)))"

section \<open>The karaoke filter: \<open>KarTextExtractor\<close> (rclkar.py)\<close>

text \<open>
  \<open>encodingfromfilename\<close> searches the file name with the \<open>bytes\<close> pattern
  \<open>\(([^\)]+)\)\.[a-zA-Z]+$\<close>. \<open>ext_tail\<close> is the part \<open>[a-zA-Z]+$\<close> (letters up to the end,
  or up to a final newline), \<open>match_here\<close> a match that starts at the head of the text,
  \<open>fn_search\<close> group 1 of the leftmost match.
\<close>

definition is_alpha :: "char \<Rightarrow> bool" where
  "is_alpha c = (c \<in> set ''abcdefghijklmnopqrstuvwxyzABCDEFGHIJKLMNOPQRSTUVWXYZ'')"

definition ext_tail :: "string \<Rightarrow> bool" where
  "ext_tail s =
     (takeWhile is_alpha s \<noteq> []
      \<and> (dropWhile is_alpha s = [] \<or> dropWhile is_alpha s = [CHR 0x0A]))"

definition match_here :: "string \<Rightarrow> string option" where
  "match_here s =
     (case s of
        [] \<Rightarrow> None
      | c # rest \<Rightarrow>
         (if c \<noteq> CHR ''('' then None
          else (let g = takeWhile (\<lambda>x. x \<noteq> CHR '')'') rest;
                    r = dropWhile (\<lambda>x. x \<noteq> CHR '')'') rest
                in if g \<noteq> [] \<and> startswith r '').'' \<and> ext_tail (drop 2 r)
                   then Some g else None)))"

fun fn_search :: "string \<Rightarrow> string option" where
  "fn_search [] = None"
| "fn_search (c # cs) =
     (case match_here (c # cs) of Some g \<Rightarrow> Some g | None \<Rightarrow> fn_search cs)"

text \<open>
  The pattern is a \<open>bytes\<close> pattern: on a \<open>str\<close> file name \<open>re.search\<close> raises, and on a
  \<open>bytes\<close> file name the group that is returned is \<open>bytes\<close>. Without a match the result is
  the empty \<open>str\<close>.
\<close>

definition encodingfromfilename :: "pyval \<Rightarrow> error + pyval" where
  "encodingfromfilename fn =
     (case fn of
        PyStr f \<Rightarrow> Inl TypeError
      | PyBytes f \<Rightarrow> (case fn_search f of Some g \<Rightarrow> Inr (PyBytes g) | None \<Rightarrow> Inr (PyStr [])))"

text \<open>
  What the filter takes from its environment: the codec names \<open>codecs.lookup\<close> knows,
  whether \<open>chardet\<close> could be imported, the detector \<open>chardet.detect\<close> (encoding, possibly
  \<open>None\<close>, and confidence), the stopword classifier (\<open>None\<close> when it cannot be built or
  fails, else code and match count), and the fallback encoding computed by \<open>__init__\<close>.
\<close>

record karlib =
  known_codec :: "string \<Rightarrow> bool"
  has_chardet :: bool
  detect :: "bytes \<Rightarrow> string option \<times> real"
  euroclass :: "bytes \<Rightarrow> (string \<times> int) option"
  defaultencoding :: string

text \<open>
  \<open>codecs.lookup\<close> accepts only a \<open>str\<close>: on a \<open>bytes\<close> object it raises \<open>TypeError\<close>, and on
  an unknown name \<open>LookupError\<close>.
\<close>

definition codecs_lookup :: "karlib \<Rightarrow> pyval \<Rightarrow> error + unit" where
  "codecs_lookup kl enc =
     (case enc of
        PyBytes e \<Rightarrow> Inl TypeError
      | PyStr e \<Rightarrow> (if known_codec kl e then Inr () else Inl LookupError))"

definition acceptnullencodings :: "string list" where
  "acceptnullencodings =
     [''csucs4'', ''csunicode'', ''csunicode11'', ''iso-10646-ucs-2'', ''iso-10646-ucs-4'',
      ''u16'', ''u32'', ''ucs-2'', ''ucs-2-internal'', ''ucs-2-swapped'', ''ucs-2be'',
      ''ucs-2le'', ''ucs-4'', ''ucs-4-internal'', ''ucs-4-swapped'', ''ucs-4be'', ''ucs-4le'',
      ''unicode-1-1'', ''unicodebig'', ''unicodelittle'', ''utf-16'', ''utf-16be'', ''utf-16le'',
      ''utf-32'', ''utf-32be'', ''utf-32le'', ''utf16'', ''utf32'', ''utf_16'', ''utf_16_be'',
      ''utf_16_le'', ''utf_32'', ''utf_32_be'', ''utf_32_le'']"

definition chardet_detect :: "karlib \<Rightarrow> bytes \<Rightarrow> error + (string \<times> real)" where
  "chardet_detect kl text0 =
     (case detect kl text0 of
        (None, confidence) \<Rightarrow> Inl AttributeError
      | (Some encoding, confidence) \<Rightarrow>
          (if map ascii_lower encoding = ''iso-8859-2''
           then (case euroclass kl text0 of
                   None \<Rightarrow> Inr (encoding, confidence)
                 | Some (code, count) \<Rightarrow>
                     (if count > 0 then Inr (code, 1) else Inr (encoding, confidence)))
           else Inr (encoding, confidence)))"

text \<open>
  The encoding decision of \<open>html_text\<close>: the statements before and after the loop over the
  MIDI events. The outcome of that loop is an input: the lyrics with and without the
  text after null bytes, \<open>hadnulls\<close>, and whether \<open>titleN\<close> and \<open>authorN\<close> were assigned. The
  result is the final \<open>self.encoding\<close> and the number of calls of \<open>chardet.detect\<close>.
\<close>

definition html_text_encoding ::
    "karlib \<Rightarrow> pyval \<Rightarrow> bytes \<Rightarrow> bytes \<Rightarrow> bool \<Rightarrow> bool \<Rightarrow> bool \<Rightarrow> error + (pyval \<times> nat)" where
  "html_text_encoding kl filename lyrics lyricsN hadnulls titleN_bound authorN_bound =
     (case encodingfromfilename filename of
        Inl e \<Rightarrow> Inl e
      | Inr enc0 \<Rightarrow>
         (let enc1 = (if truthy enc0
                      then (case codecs_lookup kl enc0 of Inl e \<Rightarrow> PyStr [] | Inr u \<Rightarrow> enc0)
                      else enc0);
              fallback = (\<lambda>(enc, calls).
                  Inr (if enc = PyStr [] then PyStr (defaultencoding kl) else enc, calls));
              second = (\<lambda>(enc, lyr, calls).
                  if enc = PyStr []
                  then (case chardet_detect kl lyr of
                          Inl e \<Rightarrow> Inl e
                        | Inr (encoding, confidence) \<Rightarrow>
                            fallback (if confidence > 0.6 then PyStr encoding else enc, Suc calls))
                  else fallback (enc, calls))
          in if enc1 = PyStr [] \<and> has_chardet kl
             then (if hadnulls
                   then (case chardet_detect kl lyricsN of
                           Inl e \<Rightarrow> Inl e
                         | Inr (encoding, confidence) \<Rightarrow>
                             (if confidence > 0.6 \<and> map ascii_lower encoding \<in> set acceptnullencodings
                              then (if titleN_bound \<and> authorN_bound
                                    then second (PyStr encoding, lyricsN, 1)
                                    else Inl UnboundLocalError)
                              else second (enc1, lyrics, 1)))
                   else second (enc1, lyrics, 0))
             else fallback (enc1, 0)))"

text \<open>
  A sample environment: the usual codec names are known, and the detector classifies
  every text as UTF-8 with confidence 0.99.
\<close>

definition utf8_detector :: karlib where
  "utf8_detector =
     \<lparr> known_codec = (\<lambda>n. n \<in> set [''cp1251'', ''cp1252'', ''utf-8'', ''iso-8859-1'']),
       has_chardet = True,
       detect = (\<lambda>b. (Some ''utf-8'', 0.99)),
       euroclass = (\<lambda>b. None),
       defaultencoding = ''cp1252'' \<rparr>"

section \<open>A sample library instance and sample containers\<close>

text \<open>
  The closed examples below run the filters with this instance of the library
  parameters: codecs that are the identity (as every single-byte codec is on ASCII
  text), documents without a title element or a charset declaration, values without
  percent escapes, references without a scheme, and addresses that are plain decimal
  numbers. The parser table \<open>starttags\<close> is given with each example that needs one.
\<close>

definition dec_value :: "string \<Rightarrow> int option" where
  "dec_value s =
     (if s \<noteq> [] \<and> list_all (\<lambda>c. c \<in> set ''0123456789'') s
      then Some (foldl (\<lambda>a c. 10 * a + (int (of_char c) - 48)) 0 s) else None)"

definition ascii_lib :: pylib where
  "ascii_lib =
     \<lparr> encode = (\<lambda>cs s. Inr s),
       decode = (\<lambda>cs b. Inr b),
       resub_title = (\<lambda>repl doc. Inr doc),
       asciito1252_sub = (\<lambda>b. b),
       findcharset = (\<lambda>b. None),
       unquote = (\<lambda>s. s),
       urlparse = (\<lambda>h. case h of None \<Rightarrow> Inl TypeError | Some p \<Rightarrow> Inr ([], p)),
       starttags = (\<lambda>t. []),
       closetags = (\<lambda>t. []),
       htmlescape = (\<lambda>b. b),
       makebytes = (\<lambda>s. s),
       py_int = (\<lambda>v. dec_value (case v of PyStr s \<Rightarrow> s | PyBytes s \<Rightarrow> s)),
       timestamp = (\<lambda>d. None) \<rparr>"

text \<open>A container with two documents, \<open>/a.htm\<close> and \<open>/b.htm\<close>.\<close>

definition two_docs :: chmfile where
  "two_docs =
     \<lparr> LoadCHM = True, CHM_RESOLVE_SUCCESS = 0,
       ResolveObject = (\<lambda>p. if p = ''/a.htm'' then (0, 1) else if p = ''/b.htm'' then (0, 2) else (1, 0)),
       RetrieveObject = (\<lambda>ui. if ui = 1 then (14, ''<body>X</body>'')
                               else if ui = 2 then (14, ''<body>Y</body>'') else (0, [])),
       GetTopicsTree = None,
       home = None,
       title = PyBytes ''T'' \<rparr>"

definition two_docs_session :: "int \<Rightarrow> rclCHM" where
  "two_docs_session cur =
     \<lparr> contents = [''/a.htm'', ''/b.htm''], chm = two_docs, catenate = False,
       currentindex = cur, charset = ''cp1252'', mimetype = PyStr ''text/html'',
       closecount = 0, rclog = [] \<rparr>"

definition one_node_info :: InfoExtractor where
  "one_node_info =
     \<lparr> info_contents = [(''f.info'', ''text''), (''f.info / N1'', ''more'')],
       info_currentindex = -1, info_mimetype = PyStr [], info_log = [] \<rparr>"

text \<open>A sample archive with one small and one very large member, and a ceiling of 1000.\<close>

definition big_zip :: zipfile where
  "big_zip =
     \<lparr> getinfo = (\<lambda>n. if n = ''small.txt'' then Some \<lparr>file_size = 5, date_time = [2020, 1, 1, 0, 0, 0]\<rparr>
                      else if n = ''dir/big.iso'' then Some \<lparr>file_size = 4000000000, date_time = [1980, 0, 0, 0, 0, 0]\<rparr>
                      else None),
       zipread = (\<lambda>n. if n = ''small.txt'' then Inr ''hello'' else Inl ValueError),
       namelist = [''small.txt'', ''dir/big.iso''] \<rparr>"

definition big_zip_session :: ZipExtractor where
  "big_zip_session =
     \<lparr> zip = Some big_zip, zip_currentindex = 0, maxmembersize = 1000,
       zip_rclog = [], zip_fields = [], zip_reads = [] \<rparr>"

text \<open>
  Sample info streams: three nodes \<open>Top\<close>, \<open>N1\<close> (under \<open>Top\<close>) and \<open>N2\<close> (under \<open>N1\<close>); and a
  stream in which the name \<open>N1\<close> occurs twice, first under \<open>Top\<close>, then under \<open>A\<close>.
\<close>

definition three_nodes :: "bytes list" where
  "three_nodes =
     [''File: f.info,  Node: Top,  Up: (dir)'' @ [CHR 0x0A], [CHR 0x0A],
      ''File: f.info,  Node: N1,  Up: Top'' @ [CHR 0x0A], [CHR 0x0A],
      ''File: f.info,  Node: N2,  Up: N1'' @ [CHR 0x0A]]"

definition dup_nodes :: "bytes list" where
  "dup_nodes =
     [''File: f.info,  Node: Top,  Up: (dir)'' @ [CHR 0x0A], [CHR 0x0A],
      ''File: f.info,  Node: A,  Up: Top'' @ [CHR 0x0A], [CHR 0x0A],
      ''File: f.info,  Node: N1,  Up: Top'' @ [CHR 0x0A], [CHR 0x0A],
      ''File: f.info,  Node: N1,  Up: A'' @ [CHR 0x0A]]"

text \<open>
  A chain of \<open>Up\<close> links, written from a node's own name up to the child of \<open>Top\<close>:
  \<open>up_chain nd n chain\<close> holds when following the dictionary from \<open>n\<close> passes exactly the
  names of \<open>chain\<close> and then reaches \<open>Top\<close>.
\<close>

fun up_chain :: "(pyval \<rightharpoonup> bytes) \<Rightarrow> bytes \<Rightarrow> bytes list \<Rightarrow> bool" where
  "up_chain nd n [] = (n = ''Top'')"
| "up_chain nd n (a # as) =
     (n = a \<and> a \<noteq> ''Top'' \<and> (case nd (PyBytes a) of None \<Rightarrow> False | Some u \<Rightarrow> up_chain nd u as))"

text \<open>
  A container without a topics tree whose home page links to \<open>page1.htm\<close>, which links
  back to the home page. The parser table lists the start tag each page contains.
\<close>

definition home_page :: bytes where
  "home_page = ''<html><body><a href=\"page1.htm\">next</a></body></html>''"

definition page1 :: bytes where
  "page1 = ''<html><body><a href=\"home.htm\">back</a></body></html>''"

definition cyclic_chm :: chmfile where
  "cyclic_chm =
     \<lparr> LoadCHM = True, CHM_RESOLVE_SUCCESS = 0,
       ResolveObject = (\<lambda>p. if p = ''/home.htm'' then (0, 1)
                             else if p = ''/page1.htm'' then (0, 2) else (1, 0)),
       RetrieveObject = (\<lambda>ui. if ui = 1 then (int (length home_page), home_page)
                               else if ui = 2 then (int (length page1), page1) else (0, [])),
       GetTopicsTree = None,
       home = Some (PyBytes ''/home.htm''),
       title = PyBytes ''Cycle'' \<rparr>"

definition cyclic_lib :: pylib where
  "cyclic_lib =
     ascii_lib\<lparr>starttags :=
        (\<lambda>t. if t = home_page then [(''a'', [(''href'', Some ''page1.htm'')])]
              else if t = page1 then [(''a'', [(''href'', Some ''home.htm'')])]
              else [])\<rparr>"

definition cyclic_session :: rclCHM where
  "cyclic_session =
     \<lparr> contents = [], chm = cyclic_chm, catenate = False, currentindex = -1,
       charset = ''cp1252'', mimetype = PyStr ''text/html'', closecount = 0, rclog = [] \<rparr>"

text \<open>
  The invariant of the component stack of \<open>normpath\<close> (kept reversed): no component is
  empty, a dot, or contains a slash; after initial slashes there is no \<open>..\<close>, and otherwise
  the \<open>..\<close> components sit at the bottom of the stack.
\<close>

definition good_stack :: "bool \<Rightarrow> string list \<Rightarrow> bool" where
  "good_stack initial st =
     ((\<forall>c \<in> set st. c \<noteq> [] \<and> c \<noteq> ''.'' \<and> CHR ''/'' \<notin> set c)
      \<and> (initial \<longrightarrow> ''..'' \<notin> set st)
      \<and> (\<exists>j rest. st = rest @ replicate j ''..'' \<and> ''..'' \<notin> set rest))"

text \<open>
  The records of a stream, as the scan sees them: \<open>header_of s line\<close> is the name and the
  parent of the header that \<open>line\<close> is in state \<open>s\<close> (a line that starts a node and whose
  pairs parse), and \<open>scan_headers s fin\<close> lists them for all lines of \<open>fin\<close>, in order.
\<close>

definition header_of :: "splitstate \<Rightarrow> bytes \<Rightarrow> (pyval \<times> bytes) option" where
  "header_of s line0 =
     (if gotblankline s \<and> startswith (lstrip '' '' line0) ''File: ''
      then (case parse_pairs (split_on CHR '','' (rstrip [CHR 0x0A, CHR 0x0D] line0))
                   (PyStr (str_int (int (node_index s))), ''Top'', infofile s) of
              Inl e \<Rightarrow> None
            | Inr (nn, up, ifile) \<Rightarrow> Some (nn, up))
      else None)"

fun scan_headers :: "splitstate \<Rightarrow> bytes list \<Rightarrow> (pyval \<times> bytes) list" where
  "scan_headers s [] = []"
| "scan_headers s (l # ls) =
     (case header_of s l of None \<Rightarrow> [] | Some h \<Rightarrow> [h]) @ scan_headers (scan_line s l) ls"

text \<open>
  A stream in which the name \<open>N1\<close> occurs twice with another record in between: first
  under \<open>Top\<close>, then, after the record \<open>A\<close>, under \<open>A\<close>.
\<close>

definition dup_apart :: "bytes list" where
  "dup_apart =
     [''File: f.info,  Node: Top,  Up: (dir)'' @ [CHR 0x0A], [CHR 0x0A],
      ''File: f.info,  Node: N1,  Up: Top'' @ [CHR 0x0A], [CHR 0x0A],
      ''File: f.info,  Node: A,  Up: Top'' @ [CHR 0x0A], [CHR 0x0A],
      ''File: f.info,  Node: N1,  Up: A'' @ [CHR 0x0A]]"

text \<open>
  A page that declares a charset no codec knows, with a library instance for it: the
  charset expression finds the declared name, and \<open>decode\<close> raises \<open>LookupError\<close> for a
  name outside the usual ones. \<open>decl_session\<close> is a container with this page as its home
  page.
\<close>

definition decl_page :: bytes where
  "decl_page = ''<html><head><meta http-equiv=\"content-type\" content=\"text/html; charset=x-unknown\"></head><body><p>text</p></body></html>''"

definition strict_lib :: pylib where
  "strict_lib =
     ascii_lib\<lparr>findcharset := (\<lambda>b. if b = decl_page then Some ''x-unknown'' else None),
               decode := (\<lambda>cs b. if cs \<in> set [''cp1252'', ''windows-1252'', ''utf-8'', ''iso-8859-1'']
                                  then Inr b else Inl LookupError)\<rparr>"

definition decl_session :: rclCHM where
  "decl_session =
     \<lparr> contents = [],
       chm = \<lparr> LoadCHM = True, CHM_RESOLVE_SUCCESS = 0,
               ResolveObject = (\<lambda>p. if p = ''/index.htm'' then (0, 1) else (1, 0)),
               RetrieveObject = (\<lambda>ui. if ui = 1 then (int (length decl_page), decl_page) else (0, [])),
               GetTopicsTree = None,
               home = Some (PyBytes ''/index.htm''),
               title = PyBytes ''Decl'' \<rparr>,
       catenate = False, currentindex = -1, charset = ''cp1252'',
       mimetype = PyStr ''text/html'', closecount = 0, rclog = [] \<rparr>"

text \<open>A container with a topics tree of one entry, and the parser table for it.\<close>

definition topics_page :: bytes where
  "topics_page = ''<param name=\"Local\" value=\"a.htm\">''"

definition topics_lib :: pylib where
  "topics_lib =
     ascii_lib\<lparr>starttags :=
        (\<lambda>t. if t = topics_page
              then [(''param'', [(''name'', Some ''Local''), (''value'', Some ''a.htm'')])]
              else [])\<rparr>"

definition topics_session :: rclCHM where
  "topics_session =
     (two_docs_session (-1))\<lparr>chm := two_docs\<lparr>GetTopicsTree := Some topics_page\<rparr>\<rparr>"

chapter \<open>Verification\<close>

section \<open>The pull protocol: \<open>getnext\<close> and \<open>getipath\<close>\<close>

lemma extractone_bytes_shape:
  "\<exists>ok d. extractone lib s (PyBytes p) nor =
     Inr (ok, d, PyBytes p,
          if currentindex s \<ge> int (length (contents s)) - 1 then eofnext else noteof)"
  by (auto simp add: extractone_def Let_def split: prod.splits)

lemma py_index_nat: "i < length xs \<Longrightarrow> py_index xs (int i) = Inr (xs ! i)"
  by (simp add: py_index_def)

lemma getnext_done:
  "\<not> catenate t \<Longrightarrow> currentindex t \<ge> int (length (contents t)) \<Longrightarrow> currentindex t \<noteq> -1 \<Longrightarrow>
   getnext lib t = Inr ((False, PyStr [], PyStr [], eofnow), closefile t)"
  by (simp add: getnext_def)

lemma getnext_run_done:
  "\<not> catenate t \<Longrightarrow> currentindex t \<ge> int (length (contents t)) \<Longrightarrow> 0 \<le> currentindex t \<Longrightarrow>
   getnext_run lib m t = Inr (replicate m (False, PyStr [], PyStr [], eofnow))"
proof (induction m arbitrary: t)
  case 0
  then show ?case by simp
next
  case (Suc m)
  have g: "getnext lib t = Inr ((False, PyStr [], PyStr [], eofnow), closefile t)"
    using Suc.prems by (intro getnext_done) auto
  have "getnext_run lib m (closefile t) = Inr (replicate m (False, PyStr [], PyStr [], eofnow))"
    using Suc.prems by (intro Suc.IH) (auto simp: closefile_def)
  with g show ?case by simp
qed

lemma getnext_item:
  assumes "\<not> catenate t" "currentindex t = int k" "k < length (contents t)"
  shows "\<exists>ok d t'. getnext lib t =
            Inr ((ok, d, PyBytes (contents t ! k),
                  if Suc k = length (contents t) then eofnext else noteof), t')
          \<and> \<not> catenate t' \<and> currentindex t' = int (Suc k) \<and> contents t' = contents t"
proof -
  obtain ok d where e: "extractone lib t (PyBytes (contents t ! k)) False =
     Inr (ok, d, PyBytes (contents t ! k),
          if currentindex t \<ge> int (length (contents t)) - 1 then eofnext else noteof)"
    using extractone_bytes_shape by blast
  have c: "(currentindex t \<ge> int (length (contents t)) - 1) = (Suc k = length (contents t))"
    using assms by auto
  show ?thesis
    using assms e c by (auto simp: getnext_def py_index_nat closefile_def Let_def)
qed

lemma getnext_run_items:
  assumes "\<not> catenate t" "currentindex t = int k" "k \<le> length (contents t)"
  shows "\<exists>items. getnext_run lib (length (contents t) - k + m) t =
            Inr (items @ replicate m (False, PyStr [], PyStr [], eofnow))
          \<and> map (\<lambda>r. snd (snd r)) items =
              map (\<lambda>i. (PyBytes (contents t ! i),
                         if Suc i = length (contents t) then eofnext else noteof))
                  [k..<length (contents t)]"
  using assms
proof (induction "length (contents t) - k" arbitrary: t k)
  case 0
  then have "getnext_run lib m t = Inr (replicate m (False, PyStr [], PyStr [], eofnow))"
    by (intro getnext_run_done) auto
  with 0 show ?case by simp
next
  case (Suc n)
  then have kl: "k < length (contents t)" by simp
  from getnext_item[OF Suc.prems(1,2) kl, of lib] obtain ok d t' where
    g: "getnext lib t = Inr ((ok, d, PyBytes (contents t ! k),
                  if Suc k = length (contents t) then eofnext else noteof), t')"
    and t': "\<not> catenate t'" "currentindex t' = int (Suc k)" "contents t' = contents t"
    by blast
  have n: "n = length (contents t') - Suc k" using Suc.hyps(2) t' by simp
  from Suc.hyps(1)[OF n t'(1,2)] kl t'(3) obtain items where
    r: "getnext_run lib (length (contents t) - Suc k + m) t' =
            Inr (items @ replicate m (False, PyStr [], PyStr [], eofnow))"
    and mp: "map (\<lambda>r. snd (snd r)) items =
              map (\<lambda>i. (PyBytes (contents t ! i),
                         if Suc i = length (contents t) then eofnext else noteof))
                  [Suc k..<length (contents t)]"
    by auto
  have len: "length (contents t) - k + m = Suc (length (contents t) - Suc k + m)"
    using kl by simp
  let ?it = "(ok, d, PyBytes (contents t ! k),
                  if Suc k = length (contents t) then eofnext else noteof)"
  have "getnext_run lib (length (contents t) - k + m) t =
          Inr ((?it # items) @ replicate m (False, PyStr [], PyStr [], eofnow))"
    unfolding len using g r by simp
  moreover have "map (\<lambda>r. snd (snd r)) (?it # items) =
              map (\<lambda>i. (PyBytes (contents t ! i),
                         if Suc i = length (contents t) then eofnext else noteof))
                  [k..<length (contents t)]"
    using mp kl by (simp add: upt_conv_Cons)
  ultimately show ?case by blast
qed

lemma chm_getnext_sequence:
  "\<exists>items. getnext_run lib (Suc (length (contents s) + m)) (s\<lparr>currentindex := -1, catenate := False\<rparr>) =
      Inr ((True, PyStr [], PyStr [], if contents s = [] then eofnext else noteof)
           # items @ replicate m (False, PyStr [], PyStr [], eofnow))
    \<and> map (\<lambda>r. snd (snd r)) items =
        map (\<lambda>i. (PyBytes (contents s ! i), if Suc i = length (contents s) then eofnext else noteof))
            [0..<length (contents s)]"
proof -
  let ?s0 = "s\<lparr>currentindex := -1, catenate := False\<rparr>"
  let ?s1 = "?s0\<lparr>currentindex := 0, mimetype := PyStr ''text/plain''\<rparr>"
  let ?t = "if contents s = [] then closefile ?s1 else ?s1"
  have g: "getnext lib ?s0 =
     Inr ((True, PyStr [], PyStr [], if contents s = [] then eofnext else noteof), ?t)"
    by (simp add: getnext_def Let_def)
  have t: "\<not> catenate ?t" "currentindex ?t = int 0" "0 \<le> length (contents ?t)" "contents ?t = contents s"
    by (simp_all add: closefile_def)
  from getnext_run_items[OF t(1,2,3), of lib m] t(4) obtain items where
    "getnext_run lib (length (contents s) + m) ?t =
            Inr (items @ replicate m (False, PyStr [], PyStr [], eofnow))"
    "map (\<lambda>r. snd (snd r)) items =
        map (\<lambda>i. (PyBytes (contents s ! i), if Suc i = length (contents s) then eofnext else noteof))
            [0..<length (contents s)]"
    by auto
  with g show ?thesis by auto
qed


lemma info_getnext_run_done:
  "info_currentindex t \<ge> int (length (info_contents t)) \<Longrightarrow> 0 \<le> info_currentindex t \<Longrightarrow>
   info_getnext_run lib m t = Inr (replicate m (False, PyStr [], PyStr [], Eof eofnow))"
proof (induction m arbitrary: t)
  case 0
  then show ?case by simp
next
  case (Suc m)
  let ?t' = "t\<lparr>info_log := info_log t @ [''getnext: EOF hit'']\<rparr>"
  have g: "info_getnext lib t = Inr ((False, PyStr [], PyStr [], Eof eofnow), ?t')"
    using Suc.prems by (simp add: info_getnext_def)
  have "info_getnext_run lib m ?t' = Inr (replicate m (False, PyStr [], PyStr [], Eof eofnow))"
    using Suc.prems by (intro Suc.IH) auto
  with g show ?case by simp
qed

lemma info_getnext_item:
  assumes "info_currentindex t = int k" "k < length (info_contents t)"
  shows "\<exists>d t'. info_getnext lib t =
            Inr ((True, d, PyStr (str_int (int k)),
                  Eof (if Suc k = length (info_contents t) then eofnext else noteof)), t')
          \<and> info_currentindex t' = int (Suc k) \<and> info_contents t' = info_contents t"
proof -
  have c: "(info_currentindex t \<ge> int (length (info_contents t)) - 1) = (Suc k = length (info_contents t))"
    using assms by auto
  show ?thesis
    using assms c
    by (auto simp: info_getnext_def info_extractone_def py_index_nat Let_def split: prod.splits)
qed

lemma info_getnext_run_items:
  assumes "info_currentindex t = int k" "k \<le> length (info_contents t)"
  shows "\<exists>items. info_getnext_run lib (length (info_contents t) - k + m) t =
            Inr (items @ replicate m (False, PyStr [], PyStr [], Eof eofnow))
          \<and> map (\<lambda>r. (fst r, snd (snd r))) items =
              map (\<lambda>i. (True, PyStr (str_int (int i)),
                         Eof (if Suc i = length (info_contents t) then eofnext else noteof)))
                  [k..<length (info_contents t)]"
  using assms
proof (induction "length (info_contents t) - k" arbitrary: t k)
  case 0
  then have "info_getnext_run lib m t = Inr (replicate m (False, PyStr [], PyStr [], Eof eofnow))"
    by (intro info_getnext_run_done) auto
  with 0 show ?case by simp
next
  case (Suc n)
  then have kl: "k < length (info_contents t)" by simp
  from info_getnext_item[OF Suc.prems(1) kl, of lib] obtain d t' where
    g: "info_getnext lib t = Inr ((True, d, PyStr (str_int (int k)),
                  Eof (if Suc k = length (info_contents t) then eofnext else noteof)), t')"
    and t': "info_currentindex t' = int (Suc k)" "info_contents t' = info_contents t"
    by blast
  have n: "n = length (info_contents t') - Suc k" using Suc.hyps(2) t' by simp
  from Suc.hyps(1)[OF n t'(1)] kl t'(2) obtain items where
    r: "info_getnext_run lib (length (info_contents t) - Suc k + m) t' =
            Inr (items @ replicate m (False, PyStr [], PyStr [], Eof eofnow))"
    and mp: "map (\<lambda>r. (fst r, snd (snd r))) items =
              map (\<lambda>i. (True, PyStr (str_int (int i)),
                         Eof (if Suc i = length (info_contents t) then eofnext else noteof)))
                  [Suc k..<length (info_contents t)]"
    by auto
  have len: "length (info_contents t) - k + m = Suc (length (info_contents t) - Suc k + m)"
    using kl by simp
  let ?it = "(True, d, PyStr (str_int (int k)),
                  Eof (if Suc k = length (info_contents t) then eofnext else noteof))"
  have "info_getnext_run lib (length (info_contents t) - k + m) t =
          Inr ((?it # items) @ replicate m (False, PyStr [], PyStr [], Eof eofnow))"
    unfolding len using g r by simp
  moreover have "map (\<lambda>r. (fst r, snd (snd r))) (?it # items) =
              map (\<lambda>i. (True, PyStr (str_int (int i)),
                         Eof (if Suc i = length (info_contents t) then eofnext else noteof)))
                  [k..<length (info_contents t)]"
    using mp kl by (simp add: upt_conv_Cons)
  ultimately show ?case by blast
qed

lemma info_getnext_sequence:
  "\<exists>items. info_getnext_run lib (Suc (length (info_contents s) + m)) (s\<lparr>info_currentindex := -1\<rparr>) =
      Inr ((True, PyStr [], PyStr [], Eof (if info_contents s = [] then eofnext else noteof))
           # items @ replicate m (False, PyStr [], PyStr [], Eof eofnow))
    \<and> map (\<lambda>r. (fst r, snd (snd r))) items =
        map (\<lambda>i. (True, PyStr (str_int (int i)),
                   Eof (if Suc i = length (info_contents s) then eofnext else noteof)))
            [0..<length (info_contents s)]"
proof -
  let ?s0 = "s\<lparr>info_currentindex := -1\<rparr>"
  let ?t = "?s0\<lparr>info_currentindex := 0, info_mimetype := PyStr ''text/plain''\<rparr>"
  have g: "info_getnext lib ?s0 =
     Inr ((True, PyStr [], PyStr [], Eof (if info_contents s = [] then eofnext else noteof)), ?t)"
    by (simp add: info_getnext_def Let_def)
  have t: "info_currentindex ?t = int 0" "0 \<le> length (info_contents ?t)" "info_contents ?t = info_contents s"
    by simp_all
  from info_getnext_run_items[OF t(1,2), of lib m] t(3) obtain items where
    "info_getnext_run lib (length (info_contents s) + m) ?t =
            Inr (items @ replicate m (False, PyStr [], PyStr [], Eof eofnow))"
    "map (\<lambda>r. (fst r, snd (snd r))) items =
        map (\<lambda>i. (True, PyStr (str_int (int i)),
                   Eof (if Suc i = length (info_contents s) then eofnext else noteof)))
            [0..<length (info_contents s)]"
    by auto
  with g show ?thesis by auto
qed


lemma ics_getnext_run_done:
  "ics_currentindex t \<ge> int (length (ics_contents t)) \<Longrightarrow> 0 \<le> ics_currentindex t \<Longrightarrow>
   ics_getnext_run m t = Inr (replicate m (False, PyStr [], PyStr [], Eof eofnow))"
proof (induction m arbitrary: t)
  case 0
  then show ?case by simp
next
  case (Suc m)
  let ?t' = "t\<lparr>ics_log := ics_log t @ [''getnext: EOF hit'']\<rparr>"
  have g: "ics_getnext t = Inr ((False, PyStr [], PyStr [], Eof eofnow), ?t')"
    using Suc.prems by (simp add: ics_getnext_def)
  have "ics_getnext_run m ?t' = Inr (replicate m (False, PyStr [], PyStr [], Eof eofnow))"
    using Suc.prems by (intro Suc.IH) auto
  with g show ?case by simp
qed

lemma ics_getnext_item:
  assumes "ics_currentindex t = int k" "k < length (ics_contents t)"
  shows "\<exists>d t'. ics_getnext t =
            Inr ((True, d, PyStr (str_int (int k)),
                  Eof (if Suc k = length (ics_contents t) then eofnext else noteof)), t')
          \<and> ics_currentindex t' = int (Suc k) \<and> ics_contents t' = ics_contents t"
proof -
  have c: "(ics_currentindex t \<ge> int (length (ics_contents t)) - 1) = (Suc k = length (ics_contents t))"
    using assms by auto
  show ?thesis
    using assms c
    by (auto simp: ics_getnext_def ics_extractone_def py_index_nat Let_def split: prod.splits)
qed

lemma ics_getnext_run_items:
  assumes "ics_currentindex t = int k" "k \<le> length (ics_contents t)"
  shows "\<exists>items. ics_getnext_run (length (ics_contents t) - k + m) t =
            Inr (items @ replicate m (False, PyStr [], PyStr [], Eof eofnow))
          \<and> map (\<lambda>r. (fst r, snd (snd r))) items =
              map (\<lambda>i. (True, PyStr (str_int (int i)),
                         Eof (if Suc i = length (ics_contents t) then eofnext else noteof)))
                  [k..<length (ics_contents t)]"
  using assms
proof (induction "length (ics_contents t) - k" arbitrary: t k)
  case 0
  then have "ics_getnext_run m t = Inr (replicate m (False, PyStr [], PyStr [], Eof eofnow))"
    by (intro ics_getnext_run_done) auto
  with 0 show ?case by simp
next
  case (Suc n)
  then have kl: "k < length (ics_contents t)" by simp
  from ics_getnext_item[OF Suc.prems(1) kl] obtain d t' where
    g: "ics_getnext t = Inr ((True, d, PyStr (str_int (int k)),
                  Eof (if Suc k = length (ics_contents t) then eofnext else noteof)), t')"
    and t': "ics_currentindex t' = int (Suc k)" "ics_contents t' = ics_contents t"
    by blast
  have n: "n = length (ics_contents t') - Suc k" using Suc.hyps(2) t' by simp
  from Suc.hyps(1)[OF n t'(1)] kl t'(2) obtain items where
    r: "ics_getnext_run (length (ics_contents t) - Suc k + m) t' =
            Inr (items @ replicate m (False, PyStr [], PyStr [], Eof eofnow))"
    and mp: "map (\<lambda>r. (fst r, snd (snd r))) items =
              map (\<lambda>i. (True, PyStr (str_int (int i)),
                         Eof (if Suc i = length (ics_contents t) then eofnext else noteof)))
                  [Suc k..<length (ics_contents t)]"
    by auto
  have len: "length (ics_contents t) - k + m = Suc (length (ics_contents t) - Suc k + m)"
    using kl by simp
  let ?it = "(True, d, PyStr (str_int (int k)),
                  Eof (if Suc k = length (ics_contents t) then eofnext else noteof))"
  have "ics_getnext_run (length (ics_contents t) - k + m) t =
          Inr ((?it # items) @ replicate m (False, PyStr [], PyStr [], Eof eofnow))"
    unfolding len using g r by simp
  moreover have "map (\<lambda>r. (fst r, snd (snd r))) (?it # items) =
              map (\<lambda>i. (True, PyStr (str_int (int i)),
                         Eof (if Suc i = length (ics_contents t) then eofnext else noteof)))
                  [k..<length (ics_contents t)]"
    using mp kl by (simp add: upt_conv_Cons)
  ultimately show ?case by blast
qed

lemma ics_getnext_sequence:
  "\<exists>items. ics_getnext_run (Suc (length (ics_contents s) + m)) (s\<lparr>ics_currentindex := -1\<rparr>) =
      Inr ((True, PyStr [], PyStr [], Eof (if ics_contents s = [] then eofnext else noteof))
           # items @ replicate m (False, PyStr [], PyStr [], Eof eofnow))
    \<and> map (\<lambda>r. (fst r, snd (snd r))) items =
        map (\<lambda>i. (True, PyStr (str_int (int i)),
                   Eof (if Suc i = length (ics_contents s) then eofnext else noteof)))
            [0..<length (ics_contents s)]"
proof -
  let ?s0 = "s\<lparr>ics_currentindex := -1\<rparr>"
  let ?t = "?s0\<lparr>ics_currentindex := 0, ics_mimetype := PyBytes ''text/plain''\<rparr>"
  have g: "ics_getnext ?s0 =
     Inr ((True, PyStr [], PyStr [], Eof (if ics_contents s = [] then eofnext else noteof)), ?t)"
    by (simp add: ics_getnext_def Let_def)
  have t: "ics_currentindex ?t = int 0" "0 \<le> length (ics_contents ?t)" "ics_contents ?t = ics_contents s"
    by simp_all
  from ics_getnext_run_items[OF t(1,2), of m] t(3) obtain items where
    "ics_getnext_run (length (ics_contents s) + m) ?t =
            Inr (items @ replicate m (False, PyStr [], PyStr [], Eof eofnow))"
    "map (\<lambda>r. (fst r, snd (snd r))) items =
        map (\<lambda>i. (True, PyStr (str_int (int i)),
                   Eof (if Suc i = length (ics_contents s) then eofnext else noteof)))
            [0..<length (ics_contents s)]"
    by auto
  with g show ?thesis by auto
qed

text \<open>
  Claim C1. In sequential (non-catenate) mode, repeated \<open>getnext\<close> calls on a freshly
  opened extractor return first the self document (success, empty data and address, with
  \<open>eofnext\<close> exactly when the contents list is empty), then one result per entry of the
  contents list, in order, carrying that entry's address and \<open>eofnext\<close> exactly on the last
  entry, and after that only failures with \<open>eofnow\<close>. This holds for the CHM, the info
  and the iCalendar extractor (whose addresses are the decimal positions).
\<close>

theorem getnext_enumerates_contents:
  "(\<exists>items. getnext_run lib (Suc (length (contents s) + m)) (s\<lparr>currentindex := -1, catenate := False\<rparr>) =
      Inr ((True, PyStr [], PyStr [], if contents s = [] then eofnext else noteof)
           # items @ replicate m (False, PyStr [], PyStr [], eofnow))
    \<and> map (\<lambda>r. snd (snd r)) items =
        map (\<lambda>i. (PyBytes (contents s ! i), if Suc i = length (contents s) then eofnext else noteof))
            [0..<length (contents s)])
   \<and> (\<exists>items. info_getnext_run lib (Suc (length (info_contents si) + m)) (si\<lparr>info_currentindex := -1\<rparr>) =
      Inr ((True, PyStr [], PyStr [], Eof (if info_contents si = [] then eofnext else noteof))
           # items @ replicate m (False, PyStr [], PyStr [], Eof eofnow))
    \<and> map (\<lambda>r. (fst r, snd (snd r))) items =
        map (\<lambda>i. (True, PyStr (str_int (int i)),
                   Eof (if Suc i = length (info_contents si) then eofnext else noteof)))
            [0..<length (info_contents si)])
   \<and> (\<exists>items. ics_getnext_run (Suc (length (ics_contents sc) + m)) (sc\<lparr>ics_currentindex := -1\<rparr>) =
      Inr ((True, PyStr [], PyStr [], Eof (if ics_contents sc = [] then eofnext else noteof))
           # items @ replicate m (False, PyStr [], PyStr [], Eof eofnow))
    \<and> map (\<lambda>r. (fst r, snd (snd r))) items =
        map (\<lambda>i. (True, PyStr (str_int (int i)),
                   Eof (if Suc i = length (ics_contents sc) then eofnext else noteof)))
            [0..<length (ics_contents sc)])"
  using chm_getnext_sequence[of lib s m] info_getnext_sequence[of lib si m]
        ics_getnext_sequence[of sc m]
  by (intro conjI)

text \<open>
  Claim C2, as stated, fails: right after \<open>openfile\<close> (cursor \<open>-1\<close>) the last address
  \<open>/b.htm\<close> of a two-document container is returned with \<open>noteof\<close>, and with the cursor at
  1 the first address \<open>/a.htm\<close> is returned with \<open>eofnext\<close>.
\<close>

theorem getipath_eof_counterexample:
  "snd (snd (snd (projr (getipath ascii_lib (two_docs_session (-1)) (PyBytes ''/b.htm'')))))
     = noteof
   \<and> last (contents (two_docs_session (-1))) = ''/b.htm''
   \<and> snd (snd (snd (projr (getipath ascii_lib (two_docs_session 1) (PyBytes ''/a.htm'')))))
     = eofnext
   \<and> ''/a.htm'' \<in> set (contents (two_docs_session 1))
   \<and> last (contents (two_docs_session 1)) \<noteq> ''/a.htm''"
  by (simp add: getipath_def extractone_def two_docs_session_def two_docs_def Let_def)

text \<open>
  Claim C2, amended. For every address in the contents list, \<open>getipath\<close> returns \<open>eofnext\<close>
  exactly when the cursor is at or past the last index (\<open>currentindex \<ge> len(contents) - 1\<close>),
  and \<open>noteof\<close> otherwise: the flag follows the cursor, not the position of the address.
  The address is echoed, and the cursor and the contents list are left as they were.
  Shown for the CHM extractor (any \<open>bytes\<close> address, so also those of the list) and for the
  info extractor (an address that parses to an index inside the list).
\<close>

theorem getipath_eof_from_cursor:
  "(\<exists>ok d. getipath lib s (PyBytes A) =
       Inr (ok, d, PyBytes A,
            if currentindex s \<ge> int (length (contents s)) - 1 then eofnext else noteof))
   \<and> (py_int lib ip = Some (int i) \<longrightarrow> i < length (info_contents t) \<longrightarrow>
        (\<exists>d t'. info_getipath lib t ip =
           Inr ((True, d, PyStr (str_int (int i)),
                 Eof (if info_currentindex t \<ge> int (length (info_contents t)) - 1
                      then eofnext else noteof)), t')
         \<and> info_currentindex t' = info_currentindex t
         \<and> info_contents t' = info_contents t))"
proof
  show "\<exists>ok d. getipath lib s (PyBytes A) =
       Inr (ok, d, PyBytes A,
            if currentindex s \<ge> int (length (contents s)) - 1 then eofnext else noteof)"
    unfolding getipath_def by (rule extractone_bytes_shape)
next
  show "py_int lib ip = Some (int i) \<longrightarrow> i < length (info_contents t) \<longrightarrow>
        (\<exists>d t'. info_getipath lib t ip =
           Inr ((True, d, PyStr (str_int (int i)),
                 Eof (if info_currentindex t \<ge> int (length (info_contents t)) - 1
                      then eofnext else noteof)), t')
         \<and> info_currentindex t' = info_currentindex t
         \<and> info_contents t' = info_contents t)"
    by (auto simp: info_getipath_def info_extractone_def py_index_nat Let_def split: prod.splits)
qed

theorem getipath_eof_from_cursor_witness:
  "py_int ascii_lib (PyBytes ''1'') = Some (int 1) \<and> 1 < length (info_contents one_node_info)
   \<and> (\<exists>d t'. info_getipath ascii_lib one_node_info (PyBytes ''1'') =
           Inr ((True, d, PyStr (str_int (int 1)), Eof noteof), t'))"
proof -
  have a: "py_int ascii_lib (PyBytes ''1'') = Some (int 1)"
    by (simp add: ascii_lib_def dec_value_def)
  have b: "1 < length (info_contents one_node_info)"
    by (simp add: one_node_info_def)
  from getipath_eof_from_cursor[of ascii_lib "two_docs_session 0" "''/a.htm''" "PyBytes ''1''" 1 one_node_info]
  have "(\<exists>d t'. info_getipath ascii_lib one_node_info (PyBytes ''1'') =
           Inr ((True, d, PyStr (str_int (int 1)),
                 Eof (if info_currentindex one_node_info \<ge> int (length (info_contents one_node_info)) - 1
                      then eofnext else noteof)), t'))"
    using a b by blast
  moreover have "\<not> info_currentindex one_node_info \<ge> int (length (info_contents one_node_info)) - 1"
    by (simp add: one_node_info_def)
  ultimately show ?thesis using a b by simp
qed

section \<open>Indexed discovery: the topics parser\<close>

text \<open>
  Claim C3, as stated, fails: a plain value \<open>missing.htm\<close> that does not resolve in the
  container is appended (as \<open>/missing.htm\<close>) without any probe.
\<close>

theorem topics_plain_path_not_probed_counterexample:
  "contents (projr (topics_handle_starttag ascii_lib (two_docs_session (-1))
       (''param'', [(''name'', Some ''Local''), (''value'', Some ''missing.htm'')])))
     = [''/a.htm'', ''/b.htm'', ''/missing.htm'']
   \<and> peekfile ascii_lib two_docs (PyStr ''missing.htm'') ''cp1252'' = Inr False
   \<and> peekfile ascii_lib two_docs (PyStr ''/missing.htm'') ''cp1252'' = Inr False"
  by (simp add: topics_handle_starttag_def topics_localpath_def peekfile_def ascii_lib_def
        two_docs_session_def two_docs_def Let_def)

text \<open>
  Claim C3, amended. The topics handler appends at most one path, and only for a \<open>param\<close>
  tag whose \<open>name\<close> is \<open>Local\<close> and whose \<open>value\<close> is non-empty. The candidate is never empty
  and never contains \<open>#\<close>. It is either the whole decoded value, when that has no colon
  (no probe is made in this case), or the last of exactly four colon-separated fields,
  and then the second and the last field are non-empty and the last one resolves in the
  live container.
\<close>

theorem topics_accepted_paths:
  assumes "topics_handle_starttag lib rc (tag, attrs) = Inr rc'"
  shows "contents rc' = contents rc
     \<or> (\<exists>v localpath b.
          tag = ''param''
        \<and> param_attrs attrs (Some [], Some []) = (Some ''Local'', Some v) \<and> v \<noteq> []
        \<and> localpath \<noteq> [] \<and> CHR ''#'' \<notin> set localpath
        \<and> encode lib (charset rc)
             (if hd localpath \<noteq> CHR ''/'' then ''/'' @ localpath else localpath) = Inr b
        \<and> contents rc' = contents rc @ [b]
        \<and> (let ll = split_on CHR '':'' (unquote lib v)
           in (length ll = 1 \<and> localpath = unquote lib v)
            \<or> (length ll = 4 \<and> ll ! 1 \<noteq> [] \<and> ll ! 3 \<noteq> [] \<and> localpath = ll ! 3
               \<and> peekfile lib (chm rc) (PyStr localpath) (charset rc) = Inr True)))"
proof (cases "contents rc' = contents rc")
  case True
  then show ?thesis by simp
next
  case False
  with assms have tag: "tag = ''param''"
    by (auto simp: topics_handle_starttag_def split: if_splits)
  obtain name valu where nv: "param_attrs attrs (Some [], Some []) = (name, valu)"
    by (cases "param_attrs attrs (Some [], Some [])")
  from assms False tag nv have name: "name = Some ''Local''" and nonempty: "valu \<noteq> Some []"
    by (auto simp: topics_handle_starttag_def split: if_splits)
  from assms False tag nv name nonempty obtain v where v: "valu = Some v"
    by (cases valu) (auto simp: topics_handle_starttag_def split: if_splits)
  from assms False tag nv name nonempty v obtain localpath where
    lp: "topics_localpath lib rc (unquote lib v) = Inr localpath"
    by (cases "topics_localpath lib rc (unquote lib v)")
       (auto simp: topics_handle_starttag_def split: if_splits)
  from assms False tag nv name nonempty v lp have ok: "localpath \<noteq> []" "CHR ''#'' \<notin> set localpath"
    by (auto simp: topics_handle_starttag_def split: if_splits)
  from assms False tag nv name nonempty v lp ok obtain b where
    b: "encode lib (charset rc)
             (if hd localpath \<noteq> CHR ''/'' then ''/'' @ localpath else localpath) = Inr b"
    and c: "contents rc' = contents rc @ [b]"
    by (auto simp: topics_handle_starttag_def split: if_splits sum.splits)
  from lp ok(1) have form:
    "let ll = split_on CHR '':'' (unquote lib v)
           in (length ll = 1 \<and> localpath = unquote lib v)
            \<or> (length ll = 4 \<and> ll ! 1 \<noteq> [] \<and> ll ! 3 \<noteq> [] \<and> localpath = ll ! 3
               \<and> peekfile lib (chm rc) (PyStr localpath) (charset rc) = Inr True)"
    by (auto simp: topics_localpath_def Let_def split: if_splits sum.splits)
  from tag nv name v nonempty ok b c form show ?thesis by blast
qed

theorem topics_accepted_paths_witness:
  "topics_handle_starttag ascii_lib (two_docs_session (-1))
       (''param'', [(''name'', Some ''Local''), (''value'', Some ''MS-ITS:two.chm::/b.htm'')])
     = Inr ((two_docs_session (-1))\<lparr>contents := [''/a.htm'', ''/b.htm'', ''/b.htm'']\<rparr>)
   \<and> (\<exists>v localpath.
          param_attrs [(''name'', Some ''Local''), (''value'', Some ''MS-ITS:two.chm::/b.htm'')]
             (Some [], Some []) = (Some ''Local'', Some v)
        \<and> CHR ''#'' \<notin> set localpath
        \<and> (let ll = split_on CHR '':'' (unquote ascii_lib v)
           in (length ll = 1 \<and> localpath = unquote ascii_lib v)
            \<or> (length ll = 4 \<and> ll ! 1 \<noteq> [] \<and> ll ! 3 \<noteq> [] \<and> localpath = ll ! 3
               \<and> peekfile ascii_lib two_docs (PyStr localpath) ''cp1252'' = Inr True)))"
proof -
  let ?rc = "two_docs_session (-1)"
  let ?attrs = "[(''name'', Some ''Local''), (''value'', Some ''MS-ITS:two.chm::/b.htm'')]"
  have run: "topics_handle_starttag ascii_lib ?rc (''param'', ?attrs)
     = Inr (?rc\<lparr>contents := [''/a.htm'', ''/b.htm'', ''/b.htm'']\<rparr>)"
    by (simp add: topics_handle_starttag_def topics_localpath_def peekfile_def ascii_lib_def
        two_docs_session_def two_docs_def Let_def)
  have ne: "contents (?rc\<lparr>contents := [''/a.htm'', ''/b.htm'', ''/b.htm'']\<rparr>) \<noteq> contents ?rc"
    by (simp add: two_docs_session_def)
  have cs: "chm ?rc = two_docs" "charset ?rc = ''cp1252''"
    by (simp_all add: two_docs_session_def)
  from topics_accepted_paths[OF run] ne cs run show ?thesis by fastforce
qed

section \<open>Catenation: \<open>dumpall\<close>\<close>

text \<open>
  Whatever the documents are, \<open>dumpall\<close> ends its result with the closing markers, so
  the result is never empty and \<open>getnext\<close> in catenate mode never takes its failure
  branch. On the two-document container the bodies come out in order.
\<close>

lemma dumpall_never_empty:
  "dumpall lib s = Inr r \<Longrightarrow> r \<noteq> [] \<and> (\<exists>t. r = t @ ''</body></html>'')"
  by (auto simp: dumpall_def split: sum.splits prod.splits)

lemma getnext_catenate_always_succeeds:
  "catenate s \<Longrightarrow> getnext lib s = Inr (r, s') \<Longrightarrow> fst r = True \<and> snd (snd (snd r)) = eofnext"
  by (auto simp: getnext_def dest!: dumpall_never_empty split: sum.splits if_splits)

lemma catenation_example:
  "dumpall ascii_lib (two_docs_session (-1)) = Inr ''XY</body></html>''"
  by code_simp

text \<open>
  Claim C5 at the failing inputs: for an empty contents list, and for a contents list
  whose only address does not resolve, no document yields a body region, and the
  assembled result is \<open></body></html>\<close>, not the empty string; \<open>getnext\<close> reports it as a
  successful document.
\<close>

theorem dumpall_empty_container_not_empty:
  "dumpall ascii_lib ((two_docs_session (-1))\<lparr>contents := []\<rparr>) = Inr ''</body></html>''
   \<and> getnext ascii_lib ((two_docs_session (-1))\<lparr>contents := [], catenate := True\<rparr>)
       = Inr ((True, PyBytes ''</body></html>'', PyStr [], eofnext),
              closefile ((two_docs_session (-1))\<lparr>contents := [], catenate := True\<rparr>))
   \<and> dumpall ascii_lib ((two_docs_session (-1))\<lparr>contents := [''/missing.htm'']\<rparr>)
       = Inr ''</body></html>''"
  by (simp add: dumpall_def getnext_def dumpall_step_def extractone_def two_docs_session_def
        two_docs_def Let_def)

section \<open>\<open>fixencoding\<close> and its call sites\<close>

lemma getfile_truthy_bytes:
  "truthy (getfile c p) \<Longrightarrow> \<exists>b. b \<noteq> [] \<and> getfile c p = PyBytes b"
  by (auto simp: getfile_def Let_def split: prod.splits if_splits)

lemma fixencoding_bytes_error:
  "fixencoding lib (PyBytes b) = Inl e \<Longrightarrow> \<exists>cs x. decode lib cs x = Inl e"
  by (auto simp: fixencoding_def Let_def split: sum.splits)

lemma peekfile_error:
  "peekfile lib c v cs = Inl e \<Longrightarrow> \<exists>cs x. encode lib cs x = Inl e"
  by (auto simp: peekfile_def split: sum.splits pyval.splits)

lemma walker_target_error:
  "walker_target lib rc dir ta = Inl e \<Longrightarrow>
     (\<exists>cs x. encode lib cs x = Inl e) \<or> (\<exists>h. urlparse lib h = Inl e)"
  by (auto simp: walker_target_def Let_def dest: peekfile_error
           split: prod.splits if_splits sum.splits)

lemma walker_feed_error:
  "walker_feed fuel lib rc dir tas cs = Some (Some e, cs') \<Longrightarrow>
     (\<exists>cs x. encode lib cs x = Inl e) \<or> (\<exists>h. urlparse lib h = Inl e)"
proof (induction fuel lib rc dir tas cs rule: walker_feed.induct)
  case (1 fuel lib rc dir cs)
  then show ?case by simp
next
  case (2 fuel lib rc dir ta tas cs)
  show ?case
  proof (cases "walker_target lib rc dir ta")
    case (Inl e')
    with "2.prems" show ?thesis by (auto dest: walker_target_error)
  next
    case (Inr tgt)
    show ?thesis
    proof (cases tgt)
      case None
      with Inr "2.prems" "2.IH"(1) show ?thesis by simp
    next
      case (Some npath)
      show ?thesis
        using Inr Some "2.prems" "2.IH"(2-)
        by (auto split: if_splits nat.splits sum.splits option.splits prod.splits)
    qed
  qed
qed

lemma topics_handle_starttag_error:
  "topics_handle_starttag lib rc ta = Inl e \<Longrightarrow>
     e = TypeError \<or> (\<exists>cs x. encode lib cs x = Inl e)"
  by (auto simp: topics_handle_starttag_def topics_localpath_def Let_def dest: peekfile_error
           split: prod.splits if_splits sum.splits option.splits)

lemma topics_feed_error:
  "topics_feed lib rc tas = Inl e \<Longrightarrow>
     e = TypeError \<or> (\<exists>cs x. encode lib cs x = Inl e)"
  by (induction lib rc tas rule: topics_feed.induct)
     (auto dest: topics_handle_starttag_error split: sum.splits)

lemma fixencoding_getfile_error:
  "truthy (getfile c p) \<Longrightarrow> fixencoding lib (getfile c p) = Inl e \<Longrightarrow>
     \<exists>cs x. decode lib cs x = Inl e"
  using getfile_truthy_bytes[of c p] fixencoding_bytes_error[of lib _ e] by auto

lemma openfile_walk_error:
  "openfile_walk fuel lib rc h = Some (Inl e) \<Longrightarrow>
     (\<exists>cs x. encode lib cs x = Inl e) \<or> (\<exists>cs x. decode lib cs x = Inl e)
     \<or> (\<exists>h. urlparse lib h = Inl e)"
  unfolding openfile_walk_def openfile_finish_def Let_def
  by (auto dest: walker_feed_error fixencoding_getfile_error
           split: if_splits option.splits sum.splits prod.splits)

lemma openfile_error:
  "openfile fuel lib rc = Some (Inl e) \<Longrightarrow>
     e = TypeError \<or> (\<exists>cs x. encode lib cs x = Inl e) \<or> (\<exists>cs x. decode lib cs x = Inl e)
     \<or> (\<exists>h. urlparse lib h = Inl e)"
  unfolding openfile_def openfile_finish_def Let_def
  by (auto dest: topics_feed_error fixencoding_bytes_error openfile_walk_error
           split: if_splits option.splits sum.splits prod.splits pyval.splits)

text \<open>
  Dropping the list of arguments from the traced functions gives the functions
  themselves, and every argument on the list is a non-empty \<open>bytes\<close> object: the walker
  passes the result of \<open>getfile\<close> only when it is truthy.
\<close>

lemma walker_feed_traced_erase:
  "map_option (\<lambda>(exc, cs', tr'). (exc, cs')) (walker_feed_traced fuel lib rc dir tas cs tr)
     = walker_feed fuel lib rc dir tas cs"
proof (induction fuel lib rc dir tas cs tr rule: walker_feed_traced.induct)
  case (1 fuel lib rc dir cs tr)
  then show ?case by simp
next
  case (2 fuel lib rc dir ta tas cs tr)
  show ?case
  proof (cases "walker_target lib rc dir ta")
    case (Inl e)
    then show ?thesis by simp
  next
    case (Inr tgt)
    show ?thesis
    proof (cases tgt)
      case None
      with Inr "2.IH"(1) show ?thesis by simp
    next
      case (Some npath)
      show ?thesis
      proof (cases "npath \<in> set cs")
        case True
        with Inr Some "2.IH"(2) show ?thesis by simp
      next
        case nin: False
        show ?thesis
        proof (cases "truthy (getfile (chm rc) npath)")
          case False
          with nin Inr Some "2.IH"(3) show ?thesis by simp
        next
          case True
          show ?thesis
          proof (cases fuel)
            case 0
            with True nin Inr Some show ?thesis by simp
          next
            case (Suc f)
            show ?thesis
            proof (cases "fixencoding lib (getfile (chm rc) npath)")
              case (Inl e)
              from "2.IH"(4)[OF Inr Some nin _ Suc Inl] True Suc nin Inr Some Inl
              show ?thesis by simp
            next
              case fx: (Inr tc)
              obtain t c where tc: "tc = (t, c)" by (cases tc)
              note ih5 = "2.IH"(5)[OF Inr Some nin _ Suc fx tc[symmetric]]
              show ?thesis
              proof (cases "walker_feed_traced f lib rc (dirname (normpath npath))
                               (starttags lib t) (cs @ [normpath npath])
                               (tr @ [getfile (chm rc) npath])")
                case None
                with ih5 True have "walker_feed f lib rc (dirname (normpath npath))
                               (starttags lib t) (cs @ [normpath npath]) = None" by simp
                with None Suc True nin Inr Some fx tc show ?thesis by simp
              next
                case inner: (Some res)
                obtain exc1 cs1 tr1 where res: "res = (exc1, cs1, tr1)" by (cases res)
                from ih5 True inner res have w: "walker_feed f lib rc (dirname (normpath npath))
                               (starttags lib t) (cs @ [normpath npath]) = Some (exc1, cs1)"
                  by simp
                from "2.IH"(6)[OF Inr Some nin _ Suc fx tc[symmetric] inner[unfolded res]] True
                have "map_option (\<lambda>(exc, cs', tr'). (exc, cs'))
                        (walker_feed_traced fuel lib rc dir tas cs1 tr1)
                      = walker_feed fuel lib rc dir tas cs1" by simp
                with inner res w Suc True nin Inr Some fx tc show ?thesis by simp
              qed
            qed
          qed
        qed
      qed
    qed
  qed
qed


lemma getfile_truthy_nonempty: "truthy (getfile c p) \<Longrightarrow> nonempty_bytes (getfile c p)"
  by (auto simp: getfile_def Let_def split: prod.splits if_splits)

lemma walker_feed_traced_args:
  "walker_feed_traced fuel lib rc dir tas cs tr = Some (exc, cs', tr') \<Longrightarrow>
   list_all nonempty_bytes tr \<Longrightarrow> list_all nonempty_bytes tr'"
proof (induction fuel lib rc dir tas cs tr arbitrary: exc cs' tr' rule: walker_feed_traced.induct)
  case (1 fuel lib rc dir cs tr)
  then show ?case by simp
next
  case (2 fuel lib rc dir ta tas cs tr)
  note run = "2.prems"(1) and ok = "2.prems"(2)
  show ?case
  proof (cases "walker_target lib rc dir ta")
    case (Inl e)
    with run ok show ?thesis by simp
  next
    case (Inr tgt)
    show ?thesis
    proof (cases tgt)
      case None
      with Inr run "2.IH"(1)[OF Inr None _ ok] show ?thesis by simp
    next
      case (Some npath)
      show ?thesis
      proof (cases "npath \<in> set cs")
        case True
        with Inr Some run "2.IH"(2)[OF Inr Some True _ ok] show ?thesis by simp
      next
        case nin: False
        show ?thesis
        proof (cases "truthy (getfile (chm rc) npath)")
          case False
          with nin Inr Some run "2.IH"(3)[OF Inr Some nin _ _ ok] show ?thesis by simp
        next
          case True
          have ok1: "list_all nonempty_bytes (tr @ [getfile (chm rc) npath])"
            using ok True by (simp add: getfile_truthy_nonempty)
          show ?thesis
          proof (cases fuel)
            case 0
            with True nin Inr Some run show ?thesis by simp
          next
            case (Suc f)
            show ?thesis
            proof (cases "fixencoding lib (getfile (chm rc) npath)")
              case (Inl e)
              with Suc True nin Inr Some run
              have "walker_feed_traced fuel lib rc dir tas (cs @ [normpath npath])
                      (tr @ [getfile (chm rc) npath]) = Some (exc, cs', tr')" by simp
              from "2.IH"(4)[OF Inr Some nin _ Suc Inl this ok1] True show ?thesis by simp
            next
              case fx: (Inr tc)
              obtain t c where tc: "tc = (t, c)" by (cases tc)
              from Suc True nin Inr Some run fx tc obtain exc1 cs1 tr1 where
                inner: "walker_feed_traced f lib rc (dirname (normpath npath)) (starttags lib t)
                          (cs @ [normpath npath]) (tr @ [getfile (chm rc) npath])
                        = Some (exc1, cs1, tr1)"
                and rest: "walker_feed_traced fuel lib rc dir tas cs1 tr1 = Some (exc, cs', tr')"
                by (auto split: option.splits)
              from "2.IH"(5)[OF Inr Some nin _ Suc fx tc[symmetric] inner ok1] True
              have ok2: "list_all nonempty_bytes tr1" by simp
              from "2.IH"(6)[OF Inr Some nin _ Suc fx tc[symmetric] inner _ _ rest ok2] True
              show ?thesis by simp
            qed
          qed
        qed
      qed
    qed
  qed
qed

lemma openfile_walk_traced_erase:
  "map_option fst (openfile_walk_traced fuel lib rc h) = openfile_walk fuel lib rc h"
proof -
  have e: "walker_feed fuel lib rc' dir tas cs = map_option (\<lambda>(exc, cs', tr'). (exc, cs'))
             (walker_feed_traced fuel lib rc' dir tas cs tr)" for rc' dir tas cs tr
    by (simp add: walker_feed_traced_erase)
  show ?thesis
    unfolding openfile_walk_traced_def openfile_walk_def Let_def
    by (auto simp: e[of _ _ _ _ "[getfile (chm rc) (if hd h \<noteq> CHR ''/'' then ''/'' @ h else h)]"]
             split: sum.splits option.splits prod.splits)
qed

lemma openfile_traced_erase:
  "map_option fst (openfile_traced fuel lib rc) = openfile fuel lib rc"
  unfolding openfile_traced_def openfile_def Let_def
  by (auto simp: openfile_walk_traced_erase split: sum.splits option.splits prod.splits pyval.splits)

lemma openfile_walk_traced_args:
  "openfile_walk_traced fuel lib rc h = Some (r, tr) \<Longrightarrow> list_all nonempty_bytes tr"
  unfolding openfile_walk_traced_def Let_def
  by (auto simp: getfile_truthy_nonempty dest!: walker_feed_traced_args
           split: if_splits sum.splits option.splits prod.splits)

lemma openfile_traced_args:
  "openfile_traced fuel lib rc = Some (r, tr) \<Longrightarrow> list_all nonempty_bytes tr"
  unfolding openfile_traced_def Let_def
  by (auto dest: openfile_walk_traced_args
           split: if_splits sum.splits option.splits prod.splits pyval.splits)


text \<open>
  Claim C10, as stated, fails in its first part: \<open>fixencoding\<close> is not total on \<open>bytes\<close>
  input. On a page that declares the charset \<open>x-unknown\<close> the decode raises
  \<open>LookupError\<close>, and \<open>openfile\<close> on a container with this home page ends with that error.
\<close>

theorem fixencoding_bytes_not_total_counterexample:
  "fixencoding strict_lib (PyBytes decl_page) = Inl LookupError
   \<and> getfile (chm decl_session) ''/index.htm'' = PyBytes decl_page
   \<and> map_option (map_sum id fst) (openfile 0 strict_lib decl_session) = Some (Inl LookupError)"
  by code_simp

text \<open>
  Claim C10, amended. \<open>fixencoding\<close> raises \<open>UnboundLocalError\<close> on every \<open>str\<close> argument. On a
  \<open>bytes\<close> argument it can still raise, but only what the decode raises. At every call
  site the argument is a non-empty \<open>bytes\<close> object: every argument recorded by
  \<open>openfile_traced\<close>, which computes what \<open>openfile\<close> computes, is one, because a truthy
  result of \<open>getfile\<close> is one. So the branch for \<open>str\<close> is never reached, and \<open>openfile\<close>
  never ends with \<open>UnboundLocalError\<close> unless a codec or \<open>urlparse\<close> raises it.
\<close>

theorem fixencoding_str_unreachable:
  "fixencoding lib (PyStr s) = Inl UnboundLocalError
   \<and> (fixencoding lib (PyBytes b) = Inl e \<longrightarrow> (\<exists>cs x. decode lib cs x = Inl e))
   \<and> (truthy (getfile c p) \<longrightarrow> (\<exists>b. b \<noteq> [] \<and> getfile c p = PyBytes b))
   \<and> map_option fst (openfile_traced fuel lib rc) = openfile fuel lib rc
   \<and> (openfile_traced fuel lib rc = Some (r, tr) \<longrightarrow> list_all nonempty_bytes tr)
   \<and> ((\<forall>cs x. encode lib cs x \<noteq> Inl UnboundLocalError) \<longrightarrow>
       (\<forall>cs x. decode lib cs x \<noteq> Inl UnboundLocalError) \<longrightarrow>
       (\<forall>h. urlparse lib h \<noteq> Inl UnboundLocalError) \<longrightarrow>
       openfile fuel lib rc \<noteq> Some (Inl UnboundLocalError))"
proof (intro conjI impI)
  show "fixencoding lib (PyStr s) = Inl UnboundLocalError"
    by (simp add: fixencoding_def)
  show "\<exists>cs x. decode lib cs x = Inl e" if "fixencoding lib (PyBytes b) = Inl e"
    using that by (rule fixencoding_bytes_error)
  show "\<exists>b. b \<noteq> [] \<and> getfile c p = PyBytes b" if "truthy (getfile c p)"
    using that by (rule getfile_truthy_bytes)
  show "map_option fst (openfile_traced fuel lib rc) = openfile fuel lib rc"
    by (rule openfile_traced_erase)
  show "list_all nonempty_bytes tr" if "openfile_traced fuel lib rc = Some (r, tr)"
    using that by (rule openfile_traced_args)
  show "openfile fuel lib rc \<noteq> Some (Inl UnboundLocalError)"
    if "\<forall>cs x. encode lib cs x \<noteq> Inl UnboundLocalError"
       "\<forall>cs x. decode lib cs x \<noteq> Inl UnboundLocalError"
       "\<forall>h. urlparse lib h \<noteq> Inl UnboundLocalError"
    using that openfile_error[of fuel lib rc UnboundLocalError] by auto
qed

text \<open>
  The three call sites at work: on the cyclic container the home page and the linked
  page are passed, on the container with a topics tree the topics object.
\<close>

lemma cyclic_trace:
  "map_option snd (openfile_traced 1 cyclic_lib cyclic_session)
     = Some [PyBytes home_page, PyBytes page1]"
  by code_simp

lemma topics_trace:
  "map_option (\<lambda>(r, tr). (map_sum id (\<lambda>(ok, rc). (ok, contents rc)) r, tr))
       (openfile_traced 0 topics_lib topics_session)
     = Some (Inr (True, [''/a.htm'']), [PyBytes topics_page])"
  by code_simp

theorem fixencoding_str_unreachable_witness:
  "map_option snd (openfile_traced 1 cyclic_lib cyclic_session)
     = Some [PyBytes home_page, PyBytes page1]
   \<and> list_all nonempty_bytes [PyBytes home_page, PyBytes page1]
   \<and> map_option snd (openfile_traced 0 topics_lib topics_session) = Some [PyBytes topics_page]
   \<and> list_all nonempty_bytes [PyBytes topics_page]
   \<and> truthy (getfile cyclic_chm ''/page1.htm'')
   \<and> getfile cyclic_chm ''/page1.htm'' = PyBytes page1
   \<and> fixencoding strict_lib (PyBytes decl_page) = Inl LookupError
   \<and> decode strict_lib ''x-unknown'' decl_page = Inl LookupError
   \<and> (\<forall>cs x. encode cyclic_lib cs x \<noteq> Inl UnboundLocalError)
   \<and> (\<forall>cs x. decode cyclic_lib cs x \<noteq> Inl UnboundLocalError)
   \<and> (\<forall>h. urlparse cyclic_lib h \<noteq> Inl UnboundLocalError)
   \<and> openfile 1 cyclic_lib cyclic_session \<noteq> Some (Inl UnboundLocalError)
   \<and> fixencoding cyclic_lib (PyStr ''<html></html>'') = Inl UnboundLocalError"
proof -
  obtain r1 where r1: "openfile_traced 1 cyclic_lib cyclic_session
      = Some (r1, [PyBytes home_page, PyBytes page1])"
    using cyclic_trace by (cases "openfile_traced 1 cyclic_lib cyclic_session") auto
  obtain r2 where r2: "openfile_traced 0 topics_lib topics_session
      = Some (r2, [PyBytes topics_page])"
    using topics_trace by (cases "openfile_traced 0 topics_lib topics_session") auto
  have g: "truthy (getfile cyclic_chm ''/page1.htm'')"
    "getfile cyclic_chm ''/page1.htm'' = PyBytes page1"
    by (simp_all add: getfile_def cyclic_chm_def page1_def)
  have d: "fixencoding strict_lib (PyBytes decl_page) = Inl LookupError"
    "decode strict_lib ''x-unknown'' decl_page = Inl LookupError"
    by code_simp+
  have b: "\<forall>cs x. encode cyclic_lib cs x \<noteq> Inl UnboundLocalError"
    "\<forall>cs x. decode cyclic_lib cs x \<noteq> Inl UnboundLocalError"
    "\<forall>h. urlparse cyclic_lib h \<noteq> Inl UnboundLocalError"
    by (auto simp: cyclic_lib_def ascii_lib_def split: option.splits)
  note t1 = fixencoding_str_unreachable[of cyclic_lib "''<html></html>''" page1 LookupError
      cyclic_chm "''/page1.htm''" 1 cyclic_session r1 "[PyBytes home_page, PyBytes page1]"]
  note t2 = fixencoding_str_unreachable[of topics_lib "''<html></html>''" page1 LookupError
      cyclic_chm "''/page1.htm''" 0 topics_session r2 "[PyBytes topics_page]"]
  from t1 r1 have l1: "list_all nonempty_bytes [PyBytes home_page, PyBytes page1]" by blast
  from t2 r2 have l2: "list_all nonempty_bytes [PyBytes topics_page]" by blast
  from t1 b have o: "openfile 1 cyclic_lib cyclic_session \<noteq> Some (Inl UnboundLocalError)"
    by blast
  from t1 have s: "fixencoding cyclic_lib (PyStr ''<html></html>'') = Inl UnboundLocalError"
    by blast
  from r1 r2 l1 l2 g d b o s show ?thesis by simp
qed

section \<open>The size ceiling of the zip filter\<close>

text \<open>
  Claim C9. For a member of the open archive whose declared size exceeds
  \<open>maxmembersize\<close>, \<open>extractone\<close> raises nothing and returns success with empty content;
  one warning is logged and \<open>zip.read\<close> is not called.
\<close>

theorem zip_oversized_member_empty:
  assumes "zip s = Some z" "getinfo z ipath = Some info" "file_size info > maxmembersize s"
  shows "\<exists>eof s'. zip_extractone lib s ipath = Inr ((True, PyStr [], makebytes lib ipath, eof), s')
           \<and> zip_reads s' = zip_reads s
           \<and> zip_rclog s' = zip_rclog s @
                [''extractone: entry '' @ ipath @ '' size '' @ str_int (file_size info) @ '' too big'']"
  using assms
  by (auto simp: zip_extractone_def zip_try_def zip_closefile_def Let_def split: option.splits)

theorem zip_oversized_member_empty_witness:
  "zip big_zip_session = Some big_zip
   \<and> getinfo big_zip ''dir/big.iso'' = Some \<lparr>file_size = 4000000000, date_time = [1980, 0, 0, 0, 0, 0]\<rparr>
   \<and> 4000000000 > maxmembersize big_zip_session
   \<and> (\<exists>eof s'. zip_extractone ascii_lib big_zip_session ''dir/big.iso''
                  = Inr ((True, PyStr [], ''dir/big.iso'', eof), s')
           \<and> zip_reads s' = [])"
proof -
  have a: "zip big_zip_session = Some big_zip" by (simp add: big_zip_session_def)
  have b: "getinfo big_zip ''dir/big.iso'' = Some \<lparr>file_size = 4000000000, date_time = [1980, 0, 0, 0, 0, 0]\<rparr>"
    by (simp add: big_zip_def)
  have c: "file_size \<lparr>file_size = 4000000000, date_time = [1980, 0, 0, 0, 0, 0]\<rparr> > maxmembersize big_zip_session"
    by (simp add: big_zip_session_def)
  have d: "makebytes ascii_lib ''dir/big.iso'' = ''dir/big.iso''" "zip_reads big_zip_session = []"
    by (simp_all add: ascii_lib_def big_zip_session_def)
  from zip_oversized_member_empty[OF a b c, of ascii_lib] d a b c show ?thesis by auto
qed

section \<open>Node titles of the info splitter\<close>

lemma title_loop_chain:
  "up_chain nd n chain \<Longrightarrow> loop + length chain \<le> 50 \<Longrightarrow>
   title_loop nd (PyBytes n) ttl loop
     = Inr (None, concat (map (\<lambda>a. a @ '' / '') (rev chain)) @ ttl)"
proof (induction chain arbitrary: n ttl loop)
  case Nil
  then show ?case by (simp add: title_loop.simps)
next
  case (Cons a as)
  from Cons.prems(1) obtain u where
    n: "n = a" "a \<noteq> ''Top''" and u: "nd (PyBytes a) = Some u" "up_chain nd u as"
    by (auto split: option.splits)
  from Cons.prems(2) have l: "\<not> loop + 1 > 50" "(loop + 1) + length as \<le> 50" by simp_all
  have "title_loop nd (PyBytes n) ttl loop
          = title_loop nd (PyBytes u) (a @ '' / '' @ ttl) (loop + 1)"
    using n u(1) l(1) by (subst title_loop.simps) simp
  also have "\<dots> = Inr (None, concat (map (\<lambda>a. a @ '' / '') (rev as)) @ a @ '' / '' @ ttl)"
    by (rule Cons.IH[OF u(2) l(2)])
  finally show ?case by simp
qed

lemma rstrip_tail:
  "x \<noteq> [] \<Longrightarrow> last x \<notin> set cs \<Longrightarrow> set y \<subseteq> set cs \<Longrightarrow> rstrip cs (x @ y) = x"
proof -
  assume a: "x \<noteq> []" "last x \<notin> set cs" "set y \<subseteq> set cs"
  have "dropWhile (\<lambda>c. c \<in> set cs) (rev y @ rev x) = dropWhile (\<lambda>c. c \<in> set cs) (rev x)"
    using a(3) by (intro dropWhile_append2) auto
  moreover have "dropWhile (\<lambda>c. c \<in> set cs) (rev x) = rev x"
    using a(1,2) by (cases "rev x") (auto simp: last_rev hd_rev[symmetric] dest: arg_cong[where f=hd])
  ultimately show ?thesis by (simp add: rstrip_def)
qed

lemma join_shift:
  "x @ '' / '' @ concat (map (\<lambda>a. a @ '' / '') l)
     = x @ concat (map (\<lambda>a. '' / '' @ a) l) @ '' / ''"
  by (induction l arbitrary: x) auto

text \<open>
  Claim C7, amended. When the \<open>Up\<close> links from a node reach \<open>Top\<close> in at most 50 steps, and
  the node's name is not empty and does not end in a blank or a slash, the title is the
  display name followed by the names on the chain, from the child of \<open>Top\<close> down to the
  node's own name, each preceded by the separator \<open> / \<close>. Only the node named \<open>Top\<close> itself
  (the empty chain) gets just the display name, with trailing blanks and slashes removed.
\<close>

theorem title_path_of_chain:
  assumes "up_chain nd n chain" "length chain \<le> 50" "n \<noteq> []" "last n \<notin> set '' /''"
  shows "node_title nd ifile (PyBytes n)
           = Inr (Inr (if chain = [] then rstrip '' /'' ifile
                       else ifile @ concat (map (\<lambda>a. '' / '' @ a) (rev chain))))"
proof -
  have t: "title_loop nd (PyBytes n) [] 0 = Inr (None, concat (map (\<lambda>a. a @ '' / '') (rev chain)))"
    using title_loop_chain[OF assms(1), of 0 "[]"] assms(2) by simp
  show ?thesis
  proof (cases chain)
    case Nil
    with t show ?thesis by (simp add: node_title_def)
  next
    case (Cons a as)
    with assms(1) have na: "a = n" by simp
    have ne: "concat (map (\<lambda>a. a @ '' / '') (rev chain)) \<noteq> []"
      using Cons by simp
    let ?x = "ifile @ concat (map (\<lambda>a. '' / '' @ a) (rev chain))"
    let ?t = "concat (map (\<lambda>a. a @ '' / '') (rev chain))"
    have x: "?x \<noteq> []" "last ?x \<notin> set '' /''"
      using Cons na assms(3,4) by simp_all
    have "rstrip '' /'' (ifile @ '' / '' @ ?t) = rstrip '' /'' (?x @ '' / '')"
      by (simp only: join_shift append_assoc)
    also have "\<dots> = ?x"
      using x by (intro rstrip_tail) auto
    finally have r: "rstrip '' /'' (ifile @ '' / '' @ ?t) = ?x" .
    have nt: "node_title nd ifile (PyBytes n) = Inr (Inr (rstrip '' /'' (ifile @ '' / '' @ ?t)))"
      unfolding node_title_def t using ne by simp
    have c: "chain \<noteq> []" using Cons by simp
    from nt r have "node_title nd ifile (PyBytes n) = Inr (Inr ?x)" by (simp only:)
    with c show ?thesis by (simp only: if_False)
  qed
qed


theorem title_path_of_chain_witness:
  "up_chain (node_dict (foldl scan_line (split_init ''/usr/share/info/f.info'') three_nodes))
      ''N2'' [''N2'', ''N1'']
   \<and> length [''N2'', ''N1''] \<le> 50 \<and> ''N2'' \<noteq> [] \<and> last ''N2'' \<notin> set '' /''
   \<and> node_title (node_dict (foldl scan_line (split_init ''/usr/share/info/f.info'') three_nodes))
         ''f.info'' (PyBytes ''N2'') = Inr (Inr ''f.info / N1 / N2'')"
proof -
  let ?nd = "node_dict (foldl scan_line (split_init ''/usr/share/info/f.info'') three_nodes)"
  have a: "up_chain ?nd ''N2'' [''N2'', ''N1'']" by code_simp
  have b: "length [''N2'', ''N1''] \<le> 50" "''N2'' \<noteq> []" "last ''N2'' \<notin> set '' /''" by simp_all
  from title_path_of_chain[OF a b, of "''f.info''"] a b show ?thesis by simp
qed

text \<open>
  Claim C7, as stated, fails: in the stream with the nodes \<open>Top\<close>, \<open>N1\<close> and \<open>N2\<close>, the node
  \<open>N1\<close> has \<open>Top\<close> as its only parent, and its title is \<open>f.info / N1\<close>, not just the display
  name \<open>f.info\<close>. (The title of \<open>N2\<close> is \<open>f.info / N1 / N2\<close>, as the claim says.)
\<close>

theorem title_of_root_child_counterexample:
  "map fst (fst (projr (splitinfo ''/usr/share/info/f.info'' three_nodes)))
     = [''f.info'', ''f.info / N1'', ''f.info / N1 / N2'']
   \<and> node_dict (foldl scan_line (split_init ''/usr/share/info/f.info'') three_nodes)
        (PyBytes ''N1'') = Some ''Top''
   \<and> node_title (node_dict (foldl scan_line (split_init ''/usr/share/info/f.info'') three_nodes))
        ''f.info'' (PyBytes ''N1'') = Inr (Inr ''f.info / N1'')"
  by code_simp

text \<open>A name that ends in a slash loses it in the title.\<close>

lemma title_strip_example:
  "node_title [PyBytes ''a/'' \<mapsto> ''Top''] ''f.info'' (PyBytes ''a/'') = Inr (Inr ''f.info / a'')"
  by code_simp

text \<open>
  The effect of the scan on the dictionary and on the duplicate messages, line by line
  and then for a whole stream: every header overwrites the entry of its name, and a
  message is added exactly when the name is already in the dictionary.
\<close>

lemma scan_line_dict:
  "node_dict (scan_line s l)
     = (case header_of s l of None \<Rightarrow> node_dict s | Some (nn, up) \<Rightarrow> (node_dict s)(nn \<mapsto> up))"
  by (auto simp: scan_line_def header_of_def end_of_line_def Let_def split: sum.splits prod.splits)

lemma scan_line_dups:
  "count_list (msgs (scan_line s l)) (DupNode n)
     = count_list (msgs s) (DupNode n)
       + (case header_of s l of
            None \<Rightarrow> 0
          | Some (nn, up) \<Rightarrow> if nn = n \<and> node_dict s n \<noteq> None then 1 else 0)"
  by (auto simp: scan_line_def header_of_def end_of_line_def Let_def split: sum.splits prod.splits)

lemma scan_dict:
  "node_dict (foldl scan_line s fin) = node_dict s ++ map_of (rev (scan_headers s fin))"
proof (induction fin arbitrary: s)
  case Nil
  then show ?case by simp
next
  case (Cons l ls)
  show ?case
  proof (cases "header_of s l")
    case None
    then show ?thesis using Cons[of "scan_line s l"] by (simp add: scan_line_dict)
  next
    case (Some h)
    obtain nn up where h: "h = (nn, up)" by (cases h)
    have eq: "node_dict s ++ map_of (rev (scan_headers (scan_line s l) ls) @ [(nn, up)])
            = (node_dict s)(nn \<mapsto> up) ++ map_of (rev (scan_headers (scan_line s l) ls))"
      by (simp add: map_of_append map_add_assoc[symmetric] map_add_upd_left)
    have ih: "node_dict (foldl scan_line (scan_line s l) ls)
            = node_dict (scan_line s l) ++ map_of (rev (scan_headers (scan_line s l) ls))"
      by (rule Cons)
    have nd: "node_dict (scan_line s l) = (node_dict s)(nn \<mapsto> up)"
      using Some h by (simp add: scan_line_dict)
    have hs: "scan_headers s (l # ls) = (nn, up) # scan_headers (scan_line s l) ls"
      using Some h by simp
    show ?thesis unfolding foldl_Cons ih nd hs rev.simps eq ..
  qed
qed

lemma scan_dups:
  "count_list (msgs (foldl scan_line s fin)) (DupNode n)
     = count_list (msgs s) (DupNode n)
       + (if node_dict s n \<noteq> None
          then length (filter (\<lambda>h. fst h = n) (scan_headers s fin))
          else length (filter (\<lambda>h. fst h = n) (scan_headers s fin)) - 1)"
proof (induction fin arbitrary: s)
  case Nil
  then show ?case by simp
next
  case (Cons l ls)
  show ?case
  proof (cases "header_of s l")
    case None
    then show ?thesis
      using Cons[of "scan_line s l"] by (simp add: scan_line_dict scan_line_dups)
  next
    case (Some h)
    obtain nn up where h: "h = (nn, up)" by (cases h)
    show ?thesis
      using Cons[of "scan_line s l"] Some h
      by (auto simp: scan_line_dict scan_line_dups)
  qed
qed


text \<open>
  Claim C4, amended. For every stream, the dictionary at the end of the scan is the
  list of all headers read last-to-first: a name is mapped to the parent given by the
  last record bearing it, however far apart the records are, and no other name is
  lost. For every name, one duplicate warning is logged for each record bearing the
  name after the first. Title paths are resolved with this final dictionary.
\<close>

theorem duplicate_name_last_wins:
  "node_dict (foldl scan_line (split_init filename) fin)
     = map_of (rev (scan_headers (split_init filename) fin))
   \<and> count_list (msgs (foldl scan_line (split_init filename) fin)) (DupNode n)
     = length (filter (\<lambda>h. fst h = n) (scan_headers (split_init filename) fin)) - 1
   \<and> splitinfo filename fin
     = (let s = foldl scan_line (split_init filename) fin
        in resolve_all (map_of (rev (scan_headers (split_init filename) fin))) (infofile s)
             (if node s \<noteq> [] then listout s @ [(nodename s, node s)] else listout s)
             ([], msgs s))"
proof (intro conjI)
  show d: "node_dict (foldl scan_line (split_init filename) fin)
     = map_of (rev (scan_headers (split_init filename) fin))"
    by (simp add: scan_dict split_init_def)
  show "count_list (msgs (foldl scan_line (split_init filename) fin)) (DupNode n)
     = length (filter (\<lambda>h. fst h = n) (scan_headers (split_init filename) fin)) - 1"
    using scan_dups[of "split_init filename" fin n] by (simp add: split_init_def)
  show "splitinfo filename fin
     = (let s = foldl scan_line (split_init filename) fin
        in resolve_all (map_of (rev (scan_headers (split_init filename) fin))) (infofile s)
             (if node s \<noteq> [] then listout s @ [(nodename s, node s)] else listout s)
             ([], msgs s))"
    unfolding splitinfo_def Let_def d ..
qed

lemma dup_apart_headers:
  "scan_headers (split_init ''/usr/share/info/f.info'') dup_apart
     = [(PyBytes ''Top'', ''(dir)''), (PyBytes ''N1'', ''Top''), (PyBytes ''A'', ''Top''),
        (PyBytes ''N1'', ''A'')]"
  by code_simp

theorem duplicate_name_last_wins_witness:
  "scan_headers (split_init ''/usr/share/info/f.info'') dup_apart
     = [(PyBytes ''Top'', ''(dir)''), (PyBytes ''N1'', ''Top''), (PyBytes ''A'', ''Top''),
        (PyBytes ''N1'', ''A'')]
   \<and> node_dict (foldl scan_line (split_init ''/usr/share/info/f.info'') dup_apart)
        (PyBytes ''N1'') = Some ''A''
   \<and> count_list (msgs (foldl scan_line (split_init ''/usr/share/info/f.info'') dup_apart))
        (DupNode (PyBytes ''N1'')) = 1
   \<and> count_list (msgs (foldl scan_line (split_init ''/usr/share/info/f.info'') dup_apart))
        (DupNode (PyBytes ''A'')) = 0"
  using duplicate_name_last_wins[of "''/usr/share/info/f.info''" dup_apart "PyBytes ''N1''"]
        duplicate_name_last_wins[of "''/usr/share/info/f.info''" dup_apart "PyBytes ''A''"]
  by (simp add: dup_apart_headers)

text \<open>
  Claim C4, as stated, fails: in the stream where \<open>N1\<close> occurs first under \<open>Top\<close> and then
  under \<open>A\<close>, the warning is logged, but the dictionary ends with \<open>N1\<close> mapped to \<open>A\<close>, and
  both records named \<open>N1\<close> get the title \<open>f.info / A / N1\<close>.
\<close>

theorem duplicate_name_first_kept_counterexample:
  "map fst (fst (projr (splitinfo ''/usr/share/info/f.info'' dup_nodes)))
     = [''f.info'', ''f.info / A'', ''f.info / A / N1'', ''f.info / A / N1'']
   \<and> snd (projr (splitinfo ''/usr/share/info/f.info'' dup_nodes)) = [DupNode (PyBytes ''N1'')]
   \<and> node_dict (foldl scan_line (split_init ''/usr/share/info/f.info'') (take 5 dup_nodes))
        (PyBytes ''N1'') = Some ''Top''
   \<and> node_dict (foldl scan_line (split_init ''/usr/share/info/f.info'') dup_nodes)
        (PyBytes ''N1'') = Some ''A''"
  by code_simp

section \<open>The file name hint of the karaoke filter\<close>

lemma codecs_lookup_bytes: "codecs_lookup kl (PyBytes e) = Inl TypeError"
  by (simp add: codecs_lookup_def)

text \<open>
  The group taken from a \<open>bytes\<close> file name is a non-empty \<open>bytes\<close> object, on which
  \<open>codecs.lookup\<close> raises, so the \<open>except\<close> clause resets the encoding: whatever the file
  name is, the encoding that \<open>html_text\<close> ends with is never the file name's.
\<close>

lemma fn_search_nonempty: "fn_search f = Some g \<Longrightarrow> g \<noteq> []"
  by (induction f) (auto simp: match_here_def Let_def split: option.splits if_splits)

lemma filename_hint_never_applied:
  "html_text_encoding kl (PyBytes f) lyrics lyricsN hadnulls tb ab = Inr (enc, calls)
   \<Longrightarrow> \<exists>e. enc = PyStr e"
  by (auto simp: html_text_encoding_def encodingfromfilename_def codecs_lookup_def Let_def
           dest: fn_search_nonempty
           split: option.splits sum.splits if_splits prod.splits)

lemma sample_hint: "encodingfromfilename (PyBytes ''song (cp1251).kar'') = Inr (PyBytes ''cp1251'')"
  by code_simp

text \<open>
  Claim C8 at the failing input: the file name \<open>song (cp1251).kar\<close> carries the known codec
  name \<open>cp1251\<close> in parentheses before the extension, but \<open>codecs.lookup\<close> is given the
  \<open>bytes\<close> object, the hint is dropped, the detector is called once, and its answer
  \<open>utf-8\<close> is the encoding applied.
\<close>

theorem filename_hint_dropped:
  "encodingfromfilename (PyBytes ''song (cp1251).kar'') = Inr (PyBytes ''cp1251'')
   \<and> known_codec utf8_detector ''cp1251''
   \<and> codecs_lookup utf8_detector (PyBytes ''cp1251'') = Inl TypeError
   \<and> html_text_encoding utf8_detector (PyBytes ''song (cp1251).kar'') lyrics lyrics False True True
       = Inr (PyStr ''utf-8'', 1)"
proof -
  have "html_text_encoding utf8_detector (PyBytes ''song (cp1251).kar'') lyrics lyrics False True True
       = Inr (PyStr ''utf-8'', 1)"
    unfolding html_text_encoding_def sample_hint
    by (simp add: codecs_lookup_def chardet_detect_def utf8_detector_def ascii_lower_def)
  then show ?thesis
    by (simp add: sample_hint codecs_lookup_def utf8_detector_def)
qed

section \<open>Reachability discovery: the link walk\<close>

text \<open>
  \<open>normpath\<close> is idempotent: the components it keeps are never empty, never a dot and
  free of slashes, and the \<open>..\<close> components it keeps are leading ones of a relative path,
  so normalising its output pushes the same components again.
\<close>

lemma split_on_nonempty: "split_on sep s \<noteq> []"
  by (induction s) (auto split: list.splits)

lemma split_on_no_sep: "c \<in> set (split_on sep s) \<Longrightarrow> sep \<notin> set c"
  by (induction s arbitrary: c) (auto split: list.splits if_splits)

lemma split_on_replicate:
  "split_on sep (replicate k sep @ s) = replicate k [] @ split_on sep s"
  by (induction k) auto

lemma split_on_word: "sep \<notin> set w \<Longrightarrow> split_on sep w = [w]"
  by (induction w) (auto split: list.splits)

lemma split_on_word_sep:
  "sep \<notin> set w \<Longrightarrow> split_on sep (w @ sep # s) = w # split_on sep s"
  by (induction w) (auto split: list.splits simp: split_on_nonempty)

lemma split_on_join:
  "cs \<noteq> [] \<Longrightarrow> \<forall>c \<in> set cs. sep \<notin> set c \<Longrightarrow> split_on sep (join_on sep cs) = cs"
proof (induction sep cs rule: join_on.induct)
  case (1 sep)
  then show ?case by simp
next
  case (2 sep w)
  then show ?case by (simp add: split_on_word)
next
  case (3 sep w v ws)
  then show ?case by (simp add: split_on_word_sep)
qed

lemma good_stack_Nil: "good_stack initial []"
  by (simp add: good_stack_def)

lemma good_stack_step:
  assumes "good_stack initial st" "CHR ''/'' \<notin> set cmp"
  shows "good_stack initial (norm_step initial st cmp)"
proof -
  from assms(1) obtain j rest where st: "st = rest @ replicate j ''..''" "''..'' \<notin> set rest"
    by (auto simp: good_stack_def)
  consider (skip) "cmp = [] \<or> cmp = ''.''"
    | (push) "cmp \<noteq> []" "cmp \<noteq> ''.''" "cmp \<noteq> ''..''"
    | (dd_push) "cmp = ''..''" "(\<not> initial \<and> st = []) \<or> (st \<noteq> [] \<and> hd st = ''..'')"
    | (dd_pop) "cmp = ''..''" "\<not> ((\<not> initial \<and> st = []) \<or> (st \<noteq> [] \<and> hd st = ''..''))"
    by blast
  then show ?thesis
  proof cases
    case skip
    then show ?thesis using assms by (auto simp: norm_step_def)
  next
    case push
    have "norm_step initial st cmp = cmp # st" using push by (simp add: norm_step_def)
    moreover have "cmp # st = (cmp # rest) @ replicate j ''..''" using st by simp
    ultimately show ?thesis
      using assms push st(2) unfolding good_stack_def
      by (metis (no_types, lifting) set_ConsD)
  next
    case dd_push
    have ns: "norm_step initial st cmp = ''..'' # st" using dd_push by (auto simp: norm_step_def)
    have ni: "\<not> initial"
      using dd_push(2) assms(1) by (cases st) (auto simp: good_stack_def)
    have "rest = []"
      using dd_push(2) st by (cases rest) auto
    then have "''..'' # st = [] @ replicate (Suc j) ''..''" using st by simp
    then have "\<exists>j rest. ''..'' # st = rest @ replicate j ''..'' \<and> ''..'' \<notin> set rest"
      by (metis empty_iff list.set(1))
    then show ?thesis
      using assms(1) ni unfolding ns good_stack_def by auto
  next
    case dd_pop
    have ns: "norm_step initial st cmp = tl st" using dd_pop by (cases st) (auto simp: norm_step_def)
    have "\<exists>j rest. tl st = rest @ replicate j ''..'' \<and> ''..'' \<notin> set rest"
    proof (cases rest)
      case Nil
      then have "tl st = [] @ replicate (j - 1) ''..''" using st by (cases j) auto
      then show ?thesis by (metis empty_iff list.set(1))
    next
      case (Cons r rs)
      then have "tl st = rs @ replicate j ''..''" "''..'' \<notin> set rs" using st by auto
      then show ?thesis by blast
    qed
    moreover have "set (tl st) \<subseteq> set st" by (cases st) auto
    ultimately show ?thesis
      using assms(1) unfolding ns good_stack_def by blast
  qed
qed

lemma good_stack_foldl:
  "good_stack initial st \<Longrightarrow> \<forall>c \<in> set cs. CHR ''/'' \<notin> set c \<Longrightarrow>
   good_stack initial (foldl (norm_step initial) st cs)"
  by (induction cs arbitrary: st) (auto intro: good_stack_step)

lemma foldl_push_plain:
  "\<forall>c \<in> set cs. c \<noteq> [] \<and> c \<noteq> ''.'' \<and> c \<noteq> ''..'' \<Longrightarrow>
   foldl (norm_step initial) acc cs = rev cs @ acc"
  by (induction cs arbitrary: acc) (auto simp: norm_step_def)

lemma foldl_push_dotdot:
  "foldl (norm_step False) (replicate i ''..'') (replicate j ''..'') = replicate (i + j) ''..''"
proof (induction j arbitrary: i)
  case 0
  then show ?case by simp
next
  case (Suc j)
  have "norm_step False (replicate i ''..'') ''..'' = replicate (Suc i) ''..''"
    by (cases i) (auto simp: norm_step_def)
  then show ?case using Suc.IH[of "Suc i"] by simp
qed

lemma foldl_skip_empty:
  "foldl (norm_step initial) acc (replicate k [] @ cs) = foldl (norm_step initial) acc cs"
  by (induction k) (auto simp: norm_step_def)

lemma renorm_stack:
  assumes "good_stack initial st"
  shows "foldl (norm_step initial) [] (rev st) = st"
proof -
  from assms obtain j rest where st: "st = rest @ replicate j ''..''" "''..'' \<notin> set rest"
    by (auto simp: good_stack_def)
  have plain: "\<forall>c \<in> set (rev rest). c \<noteq> [] \<and> c \<noteq> ''.'' \<and> c \<noteq> ''..''"
    using assms st by (auto simp: good_stack_def)
  show ?thesis
  proof (cases "j = 0")
    case True
    then show ?thesis using st plain by (simp add: foldl_push_plain)
  next
    case False
    then have ni: "\<not> initial" using assms st by (auto simp: good_stack_def)
    have "foldl (norm_step initial) [] (rev st)
            = foldl (norm_step False) (foldl (norm_step False) (replicate 0 ''..'') (replicate j ''..'')) (rev rest)"
      using st ni by simp
    also have "\<dots> = rev (rev rest) @ replicate j ''..''"
      unfolding foldl_push_dotdot using plain by (simp add: foldl_push_plain)
    finally show ?thesis using st by simp
  qed
qed

lemma initial_slashes_cases: "initial_slashes p = 0 \<or> initial_slashes p = 1 \<or> initial_slashes p = 2"
  by (simp add: initial_slashes_def)

lemma join_on_hd:
  "cs \<noteq> [] \<Longrightarrow> hd cs \<noteq> [] \<Longrightarrow> join_on sep cs \<noteq> [] \<and> hd (join_on sep cs) = hd (hd cs)"
  by (induction sep cs rule: join_on.induct) auto

lemma initial_slashes_out:
  assumes "k = 0 \<or> k = 1 \<or> k = (2::nat)"
    and "cs \<noteq> [] \<Longrightarrow> hd cs \<noteq> [] \<and> hd (hd cs) \<noteq> CHR ''/''"
  shows "initial_slashes (replicate k CHR ''/'' @ join_on CHR ''/'' cs) = k"
proof (cases "cs = []")
  case True
  then show ?thesis using assms(1) by (auto simp: initial_slashes_def startswith_def)
next
  case False
  with assms(2) join_on_hd[of cs "CHR ''/''"] obtain x xs where
    j: "join_on CHR ''/'' cs = x # xs" "x \<noteq> CHR ''/''"
    by (cases "join_on CHR ''/'' cs") auto
  show ?thesis using assms(1) unfolding j
    by (auto simp: initial_slashes_def startswith_def j(2))
qed

lemma normpath_idem: "normpath (normpath p) = normpath p"
proof (cases "p = []")
  case True
  then show ?thesis by (simp add: normpath_def initial_slashes_def startswith_def norm_step_def)
next
  case False
  define k where "k = initial_slashes p"
  define st where "st = foldl (norm_step (k \<noteq> 0)) [] (split_on CHR ''/'' p)"
  define q where "q = replicate k CHR ''/'' @ join_on CHR ''/'' (rev st)"
  have np: "normpath p = (if q = [] then ''.'' else q)"
    using False unfolding normpath_def Let_def k_def st_def q_def by (simp only: if_False)
  have dot: "normpath ''.'' = ''.''"
    by (simp add: normpath_def initial_slashes_def startswith_def norm_step_def)
  have good: "good_stack (k \<noteq> 0) st"
    unfolding st_def by (intro good_stack_foldl good_stack_Nil) (auto dest: split_on_no_sep)
  have k: "k = 0 \<or> k = 1 \<or> k = 2" unfolding k_def by (rule initial_slashes_cases)
  show ?thesis
  proof (cases "q = []")
    case True
    then show ?thesis using np dot by simp
  next
    case qne: False
    have hdok: "rev st \<noteq> [] \<Longrightarrow> hd (rev st) \<noteq> [] \<and> hd (hd (rev st)) \<noteq> CHR ''/''"
    proof -
      assume ne: "rev st \<noteq> []"
      then have "hd (rev st) \<in> set st" by (metis hd_in_set set_rev)
      with good have "hd (rev st) \<noteq> []" "CHR ''/'' \<notin> set (hd (rev st))"
        by (auto simp: good_stack_def)
      then show ?thesis by (cases "hd (rev st)") auto
    qed
    have kq: "initial_slashes q = k"
      unfolding q_def using k hdok by (intro initial_slashes_out) auto
    have sp: "foldl (norm_step (k \<noteq> 0)) [] (split_on CHR ''/'' q) = st"
    proof (cases "st = []")
      case True
      have "q = replicate k CHR ''/'' @ []" unfolding q_def True by simp
      then have "split_on CHR ''/'' q = replicate k [] @ [[]]"
        by (simp only: split_on_replicate split_on.simps)
      then show ?thesis
        using True by (simp only: foldl_skip_empty) (simp add: norm_step_def)
    next
      case False
      have "split_on CHR ''/'' (join_on CHR ''/'' (rev st)) = rev st"
        using False good by (intro split_on_join) (auto simp: good_stack_def)
      then have "split_on CHR ''/'' q = replicate k [] @ rev st"
        unfolding q_def by (simp only: split_on_replicate)
      then show ?thesis
        using renorm_stack[OF good] by (simp only: foldl_skip_empty)
    qed
    have "normpath q = (if replicate k CHR ''/'' @ join_on CHR ''/'' (rev st) = [] then ''.''
                        else replicate k CHR ''/'' @ join_on CHR ''/'' (rev st))"
      unfolding normpath_def Let_def kq sp using qne by (simp only: if_False)
    also have "\<dots> = q"
      using qne by (simp only: q_def[symmetric] if_False)
    finally have "normpath q = q" .
    then show ?thesis using np qne by simp
  qed
qed

text \<open>
  The walk only appends to the contents list, and every target it follows is already
  normalised, so the path a new walker appends is the path that was tested.
\<close>

lemma walker_target_normal:
  "walker_target lib rc dir ta = Inr (Some npath) \<Longrightarrow> normpath npath = npath"
  by (auto simp: walker_target_def Let_def normpath_idem
           split: prod.splits if_splits sum.splits)

lemma walker_feed_extends:
  "walker_feed fuel lib rc dir tas cs = Some (exc, cs') \<Longrightarrow> \<exists>ys. cs' = cs @ ys"
proof (induction fuel lib rc dir tas cs arbitrary: exc cs' rule: walker_feed.induct)
  case (1 fuel lib rc dir cs)
  then show ?case by simp
next
  case (2 fuel lib rc dir ta tas cs)
  show ?case
  proof (cases "walker_target lib rc dir ta")
    case (Inl e)
    with "2.prems" show ?thesis by simp
  next
    case (Inr tgt)
    show ?thesis
    proof (cases tgt)
      case None
      with Inr "2.prems" "2.IH"(1) show ?thesis by simp
    next
      case (Some npath)
      show ?thesis
      proof (cases "npath \<in> set cs")
        case True
        with Inr Some "2.prems" "2.IH"(2) show ?thesis by simp
      next
        case nin: False
        show ?thesis
        proof (cases "truthy (getfile (chm rc) npath)")
          case False
          with nin Inr Some "2.prems" "2.IH"(3) show ?thesis by simp
        next
          case True
          show ?thesis
          proof (cases fuel)
            case 0
            with True nin Inr Some "2.prems" show ?thesis by simp
          next
            case (Suc f)
            show ?thesis
            proof (cases "fixencoding lib (getfile (chm rc) npath)")
              case (Inl e)
              with Suc True nin Inr Some "2.prems"
              have "walker_feed fuel lib rc dir tas (cs @ [normpath npath]) = Some (exc, cs')"
                by simp
              from "2.IH"(4)[OF Inr Some nin _ Suc Inl this] True
              show ?thesis by auto
            next
              case fx: (Inr tc)
              obtain t c where tc: "tc = (t, c)" by (cases tc)
              from Suc True nin Inr Some "2.prems" fx tc obtain exc1 cs1 where
                inner: "walker_feed f lib rc (dirname (normpath npath)) (starttags lib t)
                               (cs @ [normpath npath]) = Some (exc1, cs1)"
                and rest: "walker_feed fuel lib rc dir tas cs1 = Some (exc, cs')"
                by (auto split: option.splits)
              from "2.IH"(5)[OF Inr Some nin _ Suc fx tc[symmetric] inner] True
              obtain ys where ys: "cs1 = (cs @ [normpath npath]) @ ys" by auto
              from "2.IH"(6)[OF Inr Some nin _ Suc fx tc[symmetric] inner _ rest] True
              obtain zs where "cs' = cs1 @ zs" by auto
              with ys show ?thesis by simp
            qed
          qed
        qed
      qed
    qed
  qed
qed


text \<open>
  Termination: a bound on the recursion depth that is at least the number of
  retrievable paths outside the contents list is never exhausted, and a larger bound
  does not change the result.
\<close>

lemma walker_feed_terminates:
  "finite {p. truthy (getfile (chm rc) p)} \<Longrightarrow>
   card ({p. truthy (getfile (chm rc) p)} - set cs) \<le> fuel \<Longrightarrow>
   \<exists>r. walker_feed fuel lib rc dir tas cs = Some r"
proof (induction fuel lib rc dir tas cs rule: walker_feed.induct)
  case (1 fuel lib rc dir cs)
  then show ?case by simp
next
  case (2 fuel lib rc dir ta tas cs)
  let ?R = "{p. truthy (getfile (chm rc) p)}"
  note fin = "2.prems"(1) and bound = "2.prems"(2)
  show ?case
  proof (cases "walker_target lib rc dir ta")
    case (Inl e)
    then show ?thesis by simp
  next
    case (Inr tgt)
    show ?thesis
    proof (cases tgt)
      case None
      with Inr "2.IH"(1)[OF Inr None fin bound] show ?thesis by simp
    next
      case (Some npath)
      show ?thesis
      proof (cases "npath \<in> set cs")
        case True
        with Inr Some "2.IH"(2)[OF Inr Some True fin bound] show ?thesis by simp
      next
        case nin: False
        show ?thesis
        proof (cases "truthy (getfile (chm rc) npath)")
          case False
          with nin Inr Some "2.IH"(3)[OF Inr Some nin _ fin bound] show ?thesis by simp
        next
          case True
          have np: "normpath npath = npath"
            using Inr Some by (auto dest: walker_target_normal)
          have mem: "npath \<in> ?R - set cs" using True nin by simp
          have finD: "finite (?R - set cs)" using fin by simp
          have split: "?R - set (cs @ [normpath npath]) = (?R - set cs) - {npath}"
            using np by auto
          have less: "card (?R - set (cs @ [normpath npath])) = card (?R - set cs) - 1"
            unfolding split using mem by (simp add: card_Diff_singleton)
          have pos: "card (?R - set cs) > 0"
            using mem finD by (metis card_gt_0_iff empty_iff)
          show ?thesis
          proof (cases fuel)
            case 0
            with pos bound show ?thesis by simp
          next
            case (Suc f)
            have b1: "card (?R - set (cs @ [normpath npath])) \<le> fuel"
              using less bound by simp
            have b2: "card (?R - set (cs @ [normpath npath])) \<le> f"
              using less bound Suc pos by simp
            show ?thesis
            proof (cases "fixencoding lib (getfile (chm rc) npath)")
              case (Inl e)
              from "2.IH"(4)[OF Inr Some nin _ Suc Inl fin b1] True
              obtain r where "walker_feed fuel lib rc dir tas (cs @ [normpath npath]) = Some r"
                by auto
              with Suc True nin Inr Some Inl show ?thesis by simp
            next
              case fx: (Inr tc)
              obtain t c where tc: "tc = (t, c)" by (cases tc)
              from "2.IH"(5)[OF Inr Some nin _ Suc fx tc[symmetric] fin b2] True
              obtain exc1 cs1 where
                inner: "walker_feed f lib rc (dirname (normpath npath)) (starttags lib t)
                               (cs @ [normpath npath]) = Some (exc1, cs1)"
                by auto
              from walker_feed_extends[OF inner] obtain ys where
                ys: "cs1 = (cs @ [normpath npath]) @ ys" by blast
              have "?R - set cs1 \<subseteq> ?R - set cs" using ys by auto
              then have "card (?R - set cs1) \<le> card (?R - set cs)"
                using finD by (intro card_mono) auto
              with bound have b3: "card (?R - set cs1) \<le> fuel" by simp
              from "2.IH"(6)[OF Inr Some nin _ Suc fx tc[symmetric] inner _ fin b3] True
              obtain r where "walker_feed fuel lib rc dir tas cs1 = Some r" by auto
              with Suc True nin Inr Some fx tc inner show ?thesis by simp
            qed
          qed
        qed
      qed
    qed
  qed
qed

lemma walker_feed_more_fuel:
  "walker_feed fuel lib rc dir tas cs = Some r \<Longrightarrow> fuel \<le> fuel' \<Longrightarrow>
   walker_feed fuel' lib rc dir tas cs = Some r"
proof (induction fuel lib rc dir tas cs arbitrary: r fuel' rule: walker_feed.induct)
  case (1 fuel lib rc dir cs)
  then show ?case by simp
next
  case (2 fuel lib rc dir ta tas cs)
  note run = "2.prems"(1) and le = "2.prems"(2)
  show ?case
  proof (cases "walker_target lib rc dir ta")
    case (Inl e)
    with run show ?thesis by simp
  next
    case (Inr tgt)
    show ?thesis
    proof (cases tgt)
      case None
      with Inr run "2.IH"(1)[OF Inr None _ le] show ?thesis by simp
    next
      case (Some npath)
      show ?thesis
      proof (cases "npath \<in> set cs")
        case True
        with Inr Some run "2.IH"(2)[OF Inr Some True _ le] show ?thesis by simp
      next
        case nin: False
        show ?thesis
        proof (cases "truthy (getfile (chm rc) npath)")
          case False
          with nin Inr Some run "2.IH"(3)[OF Inr Some nin _ _ le] show ?thesis by simp
        next
          case True
          show ?thesis
          proof (cases fuel)
            case 0
            with True nin Inr Some run show ?thesis by simp
          next
            case (Suc f)
            with le obtain f' where f': "fuel' = Suc f'" "f \<le> f'" by (cases fuel') auto
            show ?thesis
            proof (cases "fixencoding lib (getfile (chm rc) npath)")
              case (Inl e)
              with Suc True nin Inr Some run
              have "walker_feed fuel lib rc dir tas (cs @ [normpath npath]) = Some r" by simp
              from "2.IH"(4)[OF Inr Some nin _ Suc Inl this le] True
              have "walker_feed fuel' lib rc dir tas (cs @ [normpath npath]) = Some r" by auto
              with f' True nin Inr Some Inl show ?thesis by simp
            next
              case fx: (Inr tc)
              obtain t c where tc: "tc = (t, c)" by (cases tc)
              from Suc True nin Inr Some run fx tc obtain exc1 cs1 where
                inner: "walker_feed f lib rc (dirname (normpath npath)) (starttags lib t)
                               (cs @ [normpath npath]) = Some (exc1, cs1)"
                and rest: "walker_feed fuel lib rc dir tas cs1 = Some r"
                by (auto split: option.splits)
              from "2.IH"(5)[OF Inr Some nin _ Suc fx tc[symmetric] inner f'(2)] True
              have inner': "walker_feed f' lib rc (dirname (normpath npath)) (starttags lib t)
                               (cs @ [normpath npath]) = Some (exc1, cs1)" by auto
              from "2.IH"(6)[OF Inr Some nin _ Suc fx tc[symmetric] inner _ rest le] True
              have "walker_feed fuel' lib rc dir tas cs1 = Some r" by auto
              with f' True nin Inr Some fx tc inner' show ?thesis by simp
            qed
          qed
        qed
      qed
    qed
  qed
qed


text \<open>The duplicate removal keeps the first occurrences in order.\<close>

lemma dedup_extends: "\<exists>ys. dedup u ct xs = ct @ ys"
proof (induction xs arbitrary: u ct)
  case Nil
  then show ?case by simp
next
  case (Cons x xs)
  from Cons[of "x # u" "ct @ [x]"] Cons[of u ct] show ?case by auto
qed

lemma dedup_distinct:
  "distinct ct \<Longrightarrow> set u = set ct \<Longrightarrow>
   distinct (dedup u ct xs) \<and> set (dedup u ct xs) = set ct \<union> set xs"
  by (induction xs arbitrary: u ct) auto

lemma dedup_hd: "dedup [] [] (x # xs) \<noteq> [] \<and> hd (dedup [] [] (x # xs)) = x"
  using dedup_extends[of "[x]" "[x]" xs] by auto

lemma openfile_walk_terminates:
  assumes "finite {p. truthy (getfile (chm rc) p)}"
    and "card {p. truthy (getfile (chm rc) p)} \<le> fuel"
  shows "openfile_walk fuel lib rc h \<noteq> None"
proof -
  let ?R = "{p. truthy (getfile (chm rc) p)}"
  have w: "walker_feed fuel lib rc' dir tas cs \<noteq> None" if "chm rc' = chm rc"
    for rc' dir tas cs
  proof -
    have "card (?R - set cs) \<le> card ?R" using assms(1) by (intro card_mono) auto
    with assms that have "\<exists>r. walker_feed fuel lib rc' dir tas cs = Some r"
      by (intro walker_feed_terminates) auto
    then show ?thesis by auto
  qed
  show ?thesis
    unfolding openfile_walk_def Let_def
    by (auto split: option.splits sum.splits prod.splits simp: w)
qed

lemma openfile_terminates:
  assumes "finite {p. truthy (getfile (chm rc) p)}"
    and "card {p. truthy (getfile (chm rc) p)} \<le> fuel"
  shows "\<exists>r. openfile fuel lib rc = Some r"
proof -
  have w: "\<exists>y. openfile_walk fuel lib rc' h = Some y" if "chm rc' = chm rc" for rc' h
    using openfile_walk_terminates[of rc' fuel lib h] assms that by simp
  have "openfile fuel lib rc \<noteq> None"
    unfolding openfile_def Let_def
    by (auto split: option.splits sum.splits pyval.splits prod.splits simp: w)
  then show ?thesis by auto
qed

lemma openfile_walk_more_fuel:
  assumes "openfile_walk fuel lib rc h = Some r" "fuel \<le> fuel'"
  shows "openfile_walk fuel' lib rc h = Some r"
proof -
  have w: "walker_feed fuel' lib rc' dir tas cs = Some x"
    if "walker_feed fuel lib rc' dir tas cs = Some x" for rc' dir tas cs x
    using that assms(2) by (rule walker_feed_more_fuel)
  show ?thesis
    using assms(1) unfolding openfile_walk_def Let_def
    by (auto split: option.splits sum.splits prod.splits if_splits dest: w)
qed

lemma openfile_more_fuel:
  assumes "openfile fuel lib rc = Some r" "fuel \<le> fuel'"
  shows "openfile fuel' lib rc = Some r"
  using assms(1) openfile_walk_more_fuel[OF _ assms(2)] unfolding openfile_def Let_def
  by (auto split: option.splits sum.splits pyval.splits prod.splits if_splits)

lemma openfile_walk_home_first:
  assumes "openfile_walk fuel lib rc h = Some (Inr (True, rc'))" "contents rc = []"
  shows "contents rc' \<noteq> [] \<and> hd (contents rc') = normpath h"
proof -
  from assms have "\<exists>ys. contents rc' = dedup [] [] (normpath h # ys)"
    unfolding openfile_walk_def openfile_finish_def Let_def
    by (auto split: option.splits sum.splits prod.splits if_splits
             dest!: walker_feed_extends)
  then obtain ys where c: "contents rc' = dedup [] [] (normpath h # ys)" ..
  show ?thesis unfolding c by (rule dedup_hd)
qed

lemma openfile_home_first:
  assumes "openfile fuel lib rc = Some (Inr (True, rc'))"
    and "GetTopicsTree (chm rc) = None" "home (chm rc) = Some (PyBytes h)"
  shows "contents rc' \<noteq> [] \<and> hd (contents rc') = normpath h"
proof -
  from assms have "openfile_walk fuel lib
      (rc\<lparr>currentindex := -1, contents := [], charset := ''cp1252''\<rparr>) h = Some (Inr (True, rc'))"
    unfolding openfile_def Let_def by (auto split: if_splits)
  then show ?thesis by (rule openfile_walk_home_first) simp
qed

lemma cyclic_run:
  "map_option (map_sum id (\<lambda>(ok, r). (ok, contents r))) (openfile 1 cyclic_lib cyclic_session)
     = Some (Inr (True, [''/home.htm'', ''/page1.htm'']))"
  by code_simp

lemma cyclic_files:
  "{p. truthy (getfile (chm cyclic_session) p)} = {''/home.htm'', ''/page1.htm''}"
  by (auto simp: cyclic_session_def cyclic_chm_def getfile_def home_page_def page1_def
           split: if_splits)

text \<open>
  Claim C6. In a container with finitely many retrievable documents the link walk of
  \<open>openfile\<close> terminates: the recursion depth is bounded by the number of such documents,
  because every new walker adds a retrievable path that was not in the contents list,
  and any larger bound gives the same result. When the walk succeeds, the normalised
  home path is the first entry. On the cyclic container (home page linking to
  \<open>page1.htm\<close>, which links back) the contents list is \<open>/home.htm\<close>, \<open>/page1.htm\<close>.
\<close>

theorem reachability_walk_terminates:
  "(finite {p. truthy (getfile (chm rc) p)} \<longrightarrow>
      (\<exists>r. \<forall>fuel. card {p. truthy (getfile (chm rc) p)} \<le> fuel
                   \<longrightarrow> openfile fuel lib rc = Some r))
   \<and> (openfile fuel lib rc = Some (Inr (True, rc')) \<longrightarrow> GetTopicsTree (chm rc) = None \<longrightarrow>
        home (chm rc) = Some (PyBytes h) \<longrightarrow>
        contents rc' \<noteq> [] \<and> hd (contents rc') = normpath h)
   \<and> (\<exists>r. openfile 1 cyclic_lib cyclic_session = Some (Inr (True, r))
          \<and> contents r = [''/home.htm'', ''/page1.htm''])"
proof (intro conjI impI)
  assume fin: "finite {p. truthy (getfile (chm rc) p)}"
  from openfile_terminates[OF fin order_refl, of lib] obtain r where
    r: "openfile (card {p. truthy (getfile (chm rc) p)}) lib rc = Some r" by blast
  have "\<forall>fuel. card {p. truthy (getfile (chm rc) p)} \<le> fuel \<longrightarrow> openfile fuel lib rc = Some r"
    using openfile_more_fuel[OF r] by blast
  then show "\<exists>r. \<forall>fuel. card {p. truthy (getfile (chm rc) p)} \<le> fuel
                   \<longrightarrow> openfile fuel lib rc = Some r" ..
next
  assume "openfile fuel lib rc = Some (Inr (True, rc'))" "GetTopicsTree (chm rc) = None"
    "home (chm rc) = Some (PyBytes h)"
  then have hf: "contents rc' \<noteq> [] \<and> hd (contents rc') = normpath h"
    by (rule openfile_home_first)
  from hf show "contents rc' \<noteq> []" ..
  from hf show "hd (contents rc') = normpath h" ..
next
  show "\<exists>r. openfile 1 cyclic_lib cyclic_session = Some (Inr (True, r))
          \<and> contents r = [''/home.htm'', ''/page1.htm'']"
    using cyclic_run
    by (cases "openfile 1 cyclic_lib cyclic_session") (auto simp: map_sum_def split: sum.splits)
qed

theorem reachability_walk_terminates_witness:
  "finite {p. truthy (getfile (chm cyclic_session) p)}
   \<and> card {p. truthy (getfile (chm cyclic_session) p)} = 2
   \<and> (\<exists>r. openfile 2 cyclic_lib cyclic_session = Some (Inr (True, r))
          \<and> GetTopicsTree (chm cyclic_session) = None
          \<and> home (chm cyclic_session) = Some (PyBytes ''/home.htm'')
          \<and> hd (contents r) = normpath ''/home.htm'')"
proof -
  have f: "finite {p. truthy (getfile (chm cyclic_session) p)}"
    and c: "card {p. truthy (getfile (chm cyclic_session) p)} = 2"
    unfolding cyclic_files by simp_all
  have g: "GetTopicsTree (chm cyclic_session) = None"
    "home (chm cyclic_session) = Some (PyBytes ''/home.htm'')"
    by (simp_all add: cyclic_session_def cyclic_chm_def)
  note t = reachability_walk_terminates[of cyclic_session cyclic_lib 2 _ "''/home.htm''"]
  from t obtain r1 where r1: "openfile 1 cyclic_lib cyclic_session = Some (Inr (True, r1))"
    by blast
  from t f c obtain r where r: "\<forall>fuel. 2 \<le> fuel \<longrightarrow> openfile fuel cyclic_lib cyclic_session = Some r"
    by auto
  have "openfile 2 cyclic_lib cyclic_session = Some (Inr (True, r1))"
    using r1 by (rule openfile_more_fuel) simp
  moreover from this t g have "hd (contents r1) = normpath ''/home.htm''" by blast
  ultimately show ?thesis using f c g by blast
qed

end
